theory Spec2Isabelle
  imports Main "HOL-Library.Word"
begin

unbundle bit_operations_syntax

section \<open>Wire-format constants (intel-pt.h)\<close>

text \<open>
  The enumerators of \<^verbatim>\<open>enum pt_opcode\<close>, \<^verbatim>\<open>enum pt_ext_code\<close>,
  \<^verbatim>\<open>enum pt_opcode_size\<close>, \<^verbatim>\<open>enum pt_psb_pattern\<close>, \<^verbatim>\<open>enum pt_payload\<close> and
  \<^verbatim>\<open>enum pt_packet_size\<close> that take part in the PSB packet. Each definition has the
  right-hand side the header gives it; C enumerators are of type int.
\<close>

definition pt_opc_ext :: int where
  "pt_opc_ext = 0x02"

definition pt_opc_psb :: int where
  "pt_opc_psb = pt_opc_ext"

definition pt_ext_psb :: int where
  "pt_ext_psb = 0x82"

definition pt_opcs_psb :: int where
  "pt_opcs_psb = 2"

definition pt_psb_hi :: int where
  "pt_psb_hi = pt_opc_psb"

definition pt_psb_lo :: int where
  "pt_psb_lo = pt_ext_psb"

definition pt_psb_lohi :: int where
  "pt_psb_lohi = pt_psb_lo OR push_bit 8 pt_psb_hi"

definition pt_psb_hilo :: int where
  "pt_psb_hilo = pt_psb_hi OR push_bit 8 pt_psb_lo"

definition pt_psb_repeat_count :: int where
  "pt_psb_repeat_count = 7"

definition pt_psb_repeat_size :: int where
  "pt_psb_repeat_size = 2"

definition pt_pl_psb_size :: int where
  "pt_pl_psb_size = pt_psb_repeat_count * pt_psb_repeat_size"

definition ptps_psb :: int where
  "ptps_psb = pt_opcs_psb + pt_pl_psb_size"

text \<open>
  The bytes of a PSB packet as the enumerators describe them: the two opcode bytes
  (opcode \<^verbatim>\<open>pt_opc_psb\<close>, extension \<^verbatim>\<open>pt_ext_psb\<close>) followed by the payload, the
  pattern \<^verbatim>\<open>pt_psb_hi, pt_psb_lo\<close> repeated \<^verbatim>\<open>pt_psb_repeat_count\<close> times.
\<close>

definition psb_packet_bytes :: "int list" where
  "psb_packet_bytes =
     [pt_opc_psb, pt_ext_psb] @
     concat (replicate (nat pt_psb_repeat_count) [pt_psb_hi, pt_psb_lo])"

section \<open>Execution modes (intel-pt.h)\<close>

datatype pt_exec_mode = ptem_unknown | ptem_16bit | ptem_32bit | ptem_64bit

text \<open>\<^verbatim>\<open>struct pt_packet_mode_exec\<close>: two one-bit bitfields.\<close>

record pt_packet_mode_exec =
  csl :: "1 word"
  csd :: "1 word"

definition pt_get_exec_mode :: "pt_packet_mode_exec \<Rightarrow> pt_exec_mode" where
  "pt_get_exec_mode packet =
     (if csl packet \<noteq> 0
      then (if csd packet \<noteq> 0 then ptem_unknown else ptem_64bit)
      else (if csd packet \<noteq> 0 then ptem_32bit else ptem_16bit))"

text \<open>The \<^verbatim>\<open>default\<close> label of the switch comes first in the source; among the
  enumerators it is reached by \<^verbatim>\<open>ptem_unknown\<close> only.\<close>

fun pt_set_exec_mode :: "pt_exec_mode \<Rightarrow> pt_packet_mode_exec" where
  "pt_set_exec_mode ptem_64bit = \<lparr>csl = 1, csd = 0\<rparr>"
| "pt_set_exec_mode ptem_32bit = \<lparr>csl = 0, csd = 1\<rparr>"
| "pt_set_exec_mode ptem_16bit = \<lparr>csl = 0, csd = 0\<rparr>"
| "pt_set_exec_mode ptem_unknown = \<lparr>csl = 1, csd = 1\<rparr>"

section \<open>Error codes (intel-pt.h)\<close>

text \<open>
  The enumerators of \<^verbatim>\<open>enum pt_error_code\<close> that the modelled functions return,
  with their position in the enumeration as value. Functions return them negated, in
  an \<^verbatim>\<open>int\<close>.
\<close>

definition pte_internal :: int where
  "pte_internal = 1"

definition pte_invalid :: int where
  "pte_invalid = 2"

definition pte_eos :: int where
  "pte_eos = 7"

definition pte_nomem :: int where
  "pte_nomem = 9"

definition pte_nomap :: int where
  "pte_nomap = 13"

definition pte_bad_image :: int where
  "pte_bad_image = 17"

section \<open>The decoder state (pt_state.c)\<close>

text \<open>
  Addresses are 64-bit words and the null pointer is the address 0. A pointer to a
  decoder is an \<open>option\<close>: \<open>None\<close> is the null pointer.

  \<^verbatim>\<open>struct pt_decoder\<close> is declared in a header that is not part of the sources; the
  record has the fields that the functions of pt_state.c modelled here read or write,
  and every other field of the structure lives in the record's extension, which the
  functions below leave as it is. The event queues are the arrays
  \<^verbatim>\<open>ev_begin[evb]\<close>, \<^verbatim>\<open>ev_end[evb]\<close> (indices of type \<^verbatim>\<open>uint8_t\<close>) and
  \<^verbatim>\<open>ev_pend[evb][idx]\<close> (events), as functions of their indices. The event type is
  a parameter; its zero is the event \<^verbatim>\<open>memset\<close> leaves behind.
\<close>

type_synonym ptr = "64 word"

record 'e pt_decoder =
  config_begin :: ptr
  config_end :: ptr
  pos :: ptr
  sync :: ptr
  ev_begin :: "nat \<Rightarrow> 8 word"
  ev_end :: "nat \<Rightarrow> 8 word"
  ev_pend :: "nat \<Rightarrow> nat \<Rightarrow> 'e"

text \<open>
  \<^verbatim>\<open>pt_get_decoder_pos\<close> and \<^verbatim>\<open>pt_get_decoder_sync\<close>. The helper \<^verbatim>\<open>pt_begin\<close> is
  declared outside the sources and is a parameter here. The result is the pointer
  difference, converted to \<^verbatim>\<open>uint64_t\<close>.
\<close>

definition pt_get_decoder_pos ::
  "(('e, 'z) pt_decoder_scheme \<Rightarrow> ptr) \<Rightarrow> ('e, 'z) pt_decoder_scheme option \<Rightarrow> 64 word" where
  "pt_get_decoder_pos pt_begin decoder =
     (case decoder of
        None \<Rightarrow> 0
      | Some d \<Rightarrow>
          (let raw = pos d in
           if raw = 0 then 0
           else let begin = pt_begin d in
             if begin = 0 then 0
             else raw - begin))"

definition pt_get_decoder_sync ::
  "(('e, 'z) pt_decoder_scheme \<Rightarrow> ptr) \<Rightarrow> ('e, 'z) pt_decoder_scheme option \<Rightarrow> 64 word" where
  "pt_get_decoder_sync pt_begin decoder =
     (case decoder of
        None \<Rightarrow> 0
      | Some d \<Rightarrow>
          (let sync = sync d in
           if sync = 0 then 0
           else let begin = pt_begin d in
             if begin = 0 then 0
             else sync - begin))"

text \<open>
  \<^verbatim>\<open>pt_advance\<close>. The \<^verbatim>\<open>int\<close> argument is a 32-bit word, sign-extended when it is
  added to the pointer; the addition wraps at 64 bits. The function returns its
  \<^verbatim>\<open>int\<close> result together with the decoder it leaves behind.
\<close>

definition pt_advance ::
  "('e, 'z) pt_decoder_scheme option \<Rightarrow> 32 word \<Rightarrow> int \<times> ('e, 'z) pt_decoder_scheme option" where
  "pt_advance decoder sz =
     (case decoder of
        None \<Rightarrow> (- pte_invalid, None)
      | Some d \<Rightarrow>
          (let pos' = pos d + scast sz in
           if pos' < config_begin d then (- pte_eos, decoder)
           else if config_end d < pos' then (- pte_eos, decoder)
           else (0, Some (d\<lparr>pos := pos'\<rparr>))))"

section \<open>The event queues (pt_state.c)\<close>

text \<open>
  The enumerators \<^verbatim>\<open>evb_max\<close> (the number of event bindings) and \<^verbatim>\<open>evb_max_pend\<close>
  (the number of slots of each queue) are declared outside the sources; they are the
  first two parameters of the queue functions. An event binding is the number of its
  enumerator.

  \<^verbatim>\<open>pt_queue_inc\<close>: the \<^verbatim>\<open>uint8_t\<close> index is incremented, which wraps at 256, and
  then reduced modulo \<^verbatim>\<open>evb_max_pend\<close>. The remainder by 0 is undefined in C and
  the index itself in HOL; the properties below are for at least two slots.
\<close>

definition pt_queue_inc :: "nat \<Rightarrow> 8 word \<Rightarrow> 8 word" where
  "pt_queue_inc evb_max_pend idx =
     (let idx1 = idx + 1 in of_nat (unat idx1 mod evb_max_pend))"

text \<open>
  A pointer to an event of a queue, \<^verbatim>\<open>&decoder->ev_pend[evb][idx]\<close>, is the pair of
  the two indices; \<open>None\<close> is the null pointer. The caller of \<^verbatim>\<open>pt_enqueue_event\<close>
  fills the event in through the pointer it gets, and the caller of
  \<^verbatim>\<open>pt_dequeue_event\<close> reads the event through it.
\<close>

type_synonym ev_ptr = "nat \<times> nat"

definition ev_read :: "('e, 'z) pt_decoder_scheme \<Rightarrow> ev_ptr \<Rightarrow> 'e" where
  "ev_read d p = ev_pend d (fst p) (snd p)"

definition ev_write :: "('e, 'z) pt_decoder_scheme \<Rightarrow> ev_ptr \<Rightarrow> 'e \<Rightarrow> ('e, 'z) pt_decoder_scheme" where
  "ev_write d p v = d\<lparr>ev_pend := (ev_pend d)(fst p := (ev_pend d (fst p))(snd p := v))\<rparr>"

definition pt_enqueue_event ::
  "nat \<Rightarrow> nat \<Rightarrow> ('e::zero, 'z) pt_decoder_scheme option \<Rightarrow> nat
     \<Rightarrow> ev_ptr option \<times> ('e, 'z) pt_decoder_scheme option" where
  "pt_enqueue_event evb_max evb_max_pend decoder evb =
     (case decoder of
        None \<Rightarrow> (None, None)
      | Some d \<Rightarrow>
          if evb_max \<le> evb then (None, decoder)
          else
            (let begin = ev_begin d evb; end = ev_end d evb in
             if evb_max_pend \<le> unat begin then (None, decoder)
             else if evb_max_pend \<le> unat end then (None, decoder)
             else
               (let ev = (evb, unat end);
                    end1 = pt_queue_inc evb_max_pend end;
                    gap = pt_queue_inc evb_max_pend end1 in
                if begin = gap then (None, decoder)
                else (Some ev,
                      Some (ev_write (d\<lparr>ev_end := (ev_end d)(evb := end1)\<rparr>) ev 0)))))"

definition pt_dequeue_event ::
  "nat \<Rightarrow> nat \<Rightarrow> ('e, 'z) pt_decoder_scheme option \<Rightarrow> nat
     \<Rightarrow> ev_ptr option \<times> ('e, 'z) pt_decoder_scheme option" where
  "pt_dequeue_event evb_max evb_max_pend decoder evb =
     (case decoder of
        None \<Rightarrow> (None, None)
      | Some d \<Rightarrow>
          if evb_max \<le> evb then (None, decoder)
          else
            (let begin = ev_begin d evb; end = ev_end d evb in
             if evb_max_pend \<le> unat begin then (None, decoder)
             else if evb_max_pend \<le> unat end then (None, decoder)
             else if begin = end then (None, decoder)
             else
               (let ev = (evb, unat begin) in
                (Some ev,
                 Some (d\<lparr>ev_begin := (ev_begin d)(evb := pt_queue_inc evb_max_pend begin)\<rparr>)))))"

definition pt_discard_events ::
  "nat \<Rightarrow> ('e, 'z) pt_decoder_scheme option \<Rightarrow> nat \<Rightarrow> ('e, 'z) pt_decoder_scheme option" where
  "pt_discard_events evb_max decoder evb =
     (case decoder of
        None \<Rightarrow> None
      | Some d \<Rightarrow>
          if evb_max \<le> evb then decoder
          else Some (d\<lparr>ev_begin := (ev_begin d)(evb := 0), ev_end := (ev_end d)(evb := 0)\<rparr>))"

subsection \<open>What a queue holds\<close>

text \<open>
  The number of events between head and tail of the ring of a binding, and the events
  themselves from the head to the tail.
\<close>

definition ev_count :: "nat \<Rightarrow> ('e, 'z) pt_decoder_scheme \<Rightarrow> nat \<Rightarrow> nat" where
  "ev_count evb_max_pend d evb =
     (unat (ev_end d evb) + evb_max_pend - unat (ev_begin d evb)) mod evb_max_pend"

definition ev_queued :: "nat \<Rightarrow> ('e, 'z) pt_decoder_scheme \<Rightarrow> nat \<Rightarrow> 'e list" where
  "ev_queued evb_max_pend d evb =
     map (\<lambda>i. ev_pend d evb ((unat (ev_begin d evb) + i) mod evb_max_pend))
       [0 ..< ev_count evb_max_pend d evb]"

text \<open>
  The indices of a binding are those of slots. \<^verbatim>\<open>pt_reset\<close> sets both to 0 and the
  two functions above keep them so.
\<close>

definition ev_indices_ok :: "nat \<Rightarrow> ('e, 'z) pt_decoder_scheme \<Rightarrow> nat \<Rightarrow> bool" where
  "ev_indices_ok evb_max_pend d evb \<longleftrightarrow>
     unat (ev_begin d evb) < evb_max_pend \<and> unat (ev_end d evb) < evb_max_pend"

subsection \<open>Sequences of enqueue and dequeue calls\<close>

text \<open>
  A call of \<^verbatim>\<open>pt_enqueue_event\<close> for a binding, after which the caller stores an
  event through the pointer it got, or a call of \<^verbatim>\<open>pt_dequeue_event\<close> for a binding,
  after which the caller reads the event through the pointer it got. What the caller
  observes is that the enqueue gave a slot or the null pointer (\<open>Full\<close>), and that the
  dequeue gave an event or the null pointer (\<open>Empty\<close>).
\<close>

datatype 'e ev_call = Enqueue nat 'e | Dequeue nat

datatype 'e ev_seen = Enqueued | Full | Dequeued 'e | Empty

fun ev_binding :: "'e ev_call \<Rightarrow> nat" where
  "ev_binding (Enqueue evb v) = evb"
| "ev_binding (Dequeue evb) = evb"

fun ev_call_step ::
  "nat \<Rightarrow> nat \<Rightarrow> ('e::zero, 'z) pt_decoder_scheme \<Rightarrow> 'e ev_call
     \<Rightarrow> 'e ev_seen \<times> ('e, 'z) pt_decoder_scheme" where
  "ev_call_step evb_max evb_max_pend d (Enqueue evb v) =
     (case pt_enqueue_event evb_max evb_max_pend (Some d) evb of
        (Some ev, Some d') \<Rightarrow> (Enqueued, ev_write d' ev v)
      | (Some ev, None) \<Rightarrow> (Enqueued, d)
      | (None, Some d') \<Rightarrow> (Full, d')
      | (None, None) \<Rightarrow> (Full, d))"
| "ev_call_step evb_max evb_max_pend d (Dequeue evb) =
     (case pt_dequeue_event evb_max evb_max_pend (Some d) evb of
        (Some ev, Some d') \<Rightarrow> (Dequeued (ev_read d' ev), d')
      | (Some ev, None) \<Rightarrow> (Dequeued (ev_read d ev), d)
      | (None, Some d') \<Rightarrow> (Empty, d')
      | (None, None) \<Rightarrow> (Empty, d))"

fun ev_calls ::
  "nat \<Rightarrow> nat \<Rightarrow> ('e::zero, 'z) pt_decoder_scheme \<Rightarrow> 'e ev_call list
     \<Rightarrow> 'e ev_seen list \<times> ('e, 'z) pt_decoder_scheme" where
  "ev_calls evb_max evb_max_pend d [] = ([], d)"
| "ev_calls evb_max evb_max_pend d (c # cs) =
     (let (r, d') = ev_call_step evb_max evb_max_pend d c;
          (rs, d'') = ev_calls evb_max evb_max_pend d' cs
      in (r # rs, d''))"

text \<open>
  The queues as the specification describes them: one first-in first-out list of
  events for each binding; an enqueue appends at the tail, a dequeue takes the event
  at the head or reports that there is none.
\<close>

fun fifo_step :: "(nat \<Rightarrow> 'e list) \<Rightarrow> 'e ev_call \<Rightarrow> 'e ev_seen \<times> (nat \<Rightarrow> 'e list)" where
  "fifo_step q (Enqueue evb v) = (Enqueued, q(evb := q evb @ [v]))"
| "fifo_step q (Dequeue evb) =
     (case q evb of
        [] \<Rightarrow> (Empty, q)
      | x # xs \<Rightarrow> (Dequeued x, q(evb := xs)))"

fun fifo_calls :: "(nat \<Rightarrow> 'e list) \<Rightarrow> 'e ev_call list \<Rightarrow> 'e ev_seen list" where
  "fifo_calls q [] = []"
| "fifo_calls q (c # cs) = (let (r, q') = fifo_step q c in r # fifo_calls q' cs)"

text \<open>
  The queues of a decoder are in order when, for each binding, both indices are those
  of slots and at least two slots are free. \<^verbatim>\<open>pt_reset\<close> leaves the queues so, and
  enqueue and dequeue keep them so.
\<close>

definition ev_queues_ok :: "nat \<Rightarrow> nat \<Rightarrow> ('e, 'z) pt_decoder_scheme \<Rightarrow> bool" where
  "ev_queues_ok evb_max evb_max_pend d \<longleftrightarrow>
     (\<forall>evb < evb_max. ev_indices_ok evb_max_pend d evb
        \<and> ev_count evb_max_pend d evb + 2 \<le> evb_max_pend)"

section \<open>File-backed sections on Windows (pt_section_windows.c)\<close>

subsection \<open>The operating system and the library around the section code\<close>

text \<open>
  The section code calls the C runtime, the Windows API and functions of the library
  that are declared outside the sources (\<^verbatim>\<open>pt_section_lock\<close>,
  \<^verbatim>\<open>pt_section_unlock\<close>, \<^verbatim>\<open>pt_sec_file_map\<close>). A value of the record below holds
  the answer each of these calls gives during one call of a section function; the
  functions return, next to their result, the list of the calls they made, in order.

  File descriptors and the results of \<^verbatim>\<open>_fstat\<close> are C integers, taken with their
  value; a handle is a number, and a failed handle (\<^verbatim>\<open>INVALID_HANDLE_VALUE\<close> or the
  null handle) is \<open>None\<close>.
\<close>

record win_stat =
  st_size :: int
  st_mtime :: int

record os_world =
  lock_result :: int
  unlock_result :: int
  open_result :: int
  create_file_share_read :: "nat option"
  create_file_share_write :: "nat option"
  open_osfhandle_result :: int
  fstat_errcode :: int
  fstat_stat :: win_stat
  allocation_granularity :: "32 word"
  create_file_mapping_result :: "nat option"
  map_view_of_file_result :: ptr
  malloc_succeeds :: bool
  fdopen_succeeds :: bool

datatype os_call =
    OS_pt_section_lock
  | OS_pt_section_unlock
  | OS_open
  | OS_CreateFile_share_read
  | OS_CreateFile_share_write
  | OS_open_osfhandle
  | OS_fstat
  | OS_close
  | OS_CloseHandle
  | OS_GetSystemInfo
  | OS_get_osfhandle
  | OS_CreateFileMapping
  | OS_MapViewOfFile
  | OS_UnmapViewOfFile
  | OS_malloc
  | OS_fdopen
  | OS_pt_sec_file_map
  | OS_fclose

subsection \<open>Sections, their status and their mapping\<close>

text \<open>
  \<^verbatim>\<open>struct pt_sec_windows_status\<close> holds the \<^verbatim>\<open>struct _stat\<close> of the file;
  \<^verbatim>\<open>struct pt_sec_windows_mapping\<close> holds the file descriptor, the mapping handle and
  the addresses of the view. \<^verbatim>\<open>struct pt_section\<close> is declared outside the sources:
  the record has the fields the functions below use, the map count being a
  \<^verbatim>\<open>uint16_t\<close> like the local variable it is copied to. The functions a section points
  to for reading and unmapping are named by a datatype.
\<close>

record pt_sec_windows_status =
  stat :: win_stat

record pt_sec_windows_mapping =
  fd :: int
  mh :: nat
  base :: ptr
  "begin" :: ptr
  "end" :: ptr

datatype pt_sec_function =
    Pt_sec_windows_unmap
  | Pt_sec_windows_read
  | Pt_sec_other_function nat

record pt_section =
  filename :: "string option"
  offset :: "64 word"
  size_sec :: "64 word"
  status :: "pt_sec_windows_status option"
  mapping :: "pt_sec_windows_mapping option"
  unmap :: "pt_sec_function option"
  read :: "pt_sec_function option"
  mcount :: "16 word"

subsection \<open>Recording and checking the file status\<close>

text \<open>
  \<^verbatim>\<open>pt_sec_windows_fstat\<close>: the two flags say whether \<^verbatim>\<open>filename\<close> and \<^verbatim>\<open>stat\<close> are
  non-null; the result is the error code and what was stored in \<^verbatim>\<open>*stat\<close>.
\<close>

definition pt_sec_windows_fstat ::
  "os_world \<Rightarrow> string option \<Rightarrow> bool \<Rightarrow> int \<times> win_stat option \<times> os_call list" where
  "pt_sec_windows_fstat w fname stat_ptr =
     (if fname = None \<or> \<not> stat_ptr then (- pte_internal, None, [])
      else
        (let fd = open_result w in
         if fd = - 1 then (- pte_bad_image, None, [OS_open])
         else
           (let errcode = fstat_errcode w in
            if errcode \<noteq> 0
            then (- pte_bad_image, Some (fstat_stat w), [OS_open, OS_fstat, OS_close])
            else (0, Some (fstat_stat w), [OS_open, OS_fstat, OS_close]))))"

text \<open>
  \<^verbatim>\<open>pt_section_mk_status\<close>: the two flags say whether \<^verbatim>\<open>pstatus\<close> and \<^verbatim>\<open>psize\<close> are
  non-null; the result is the error code and what was stored in \<^verbatim>\<open>*pstatus\<close> and
  \<^verbatim>\<open>*psize\<close>. \<^verbatim>\<open>pt_sec_windows_fstat\<close> stores a \<^verbatim>\<open>struct _stat\<close> whenever it
  returns 0, so the case of a result of 0 without one does not occur.
\<close>

definition pt_section_mk_status ::
  "os_world \<Rightarrow> bool \<Rightarrow> bool \<Rightarrow> string option
     \<Rightarrow> int \<times> (pt_sec_windows_status \<times> 64 word) option \<times> os_call list" where
  "pt_section_mk_status w pstatus psize fname =
     (if \<not> pstatus \<or> \<not> psize then (- pte_internal, None, [])
      else
        (case pt_sec_windows_fstat w fname True of
           (errcode, st, calls) \<Rightarrow>
             if errcode < 0 then (errcode, None, calls)
             else
               (case st of
                  None \<Rightarrow> (- pte_internal, None, calls)
                | Some st \<Rightarrow>
                    if st_size st < 0 then (- pte_bad_image, None, calls)
                    else if \<not> malloc_succeeds w then (- pte_nomem, None, calls @ [OS_malloc])
                    else (0, Some (\<lparr>stat = st\<rparr>, of_int (st_size st)), calls @ [OS_malloc]))))"

definition check_file_status ::
  "os_world \<Rightarrow> ('z pt_section_scheme) option \<Rightarrow> int \<Rightarrow> int \<times> os_call list" where
  "check_file_status w section fd_arg =
     (case section of
        None \<Rightarrow> (- pte_internal, [])
      | Some s \<Rightarrow>
          (let st = fstat_stat w; errcode = fstat_errcode w in
           if errcode \<noteq> 0 then (- pte_bad_image, [OS_fstat])
           else
             (case status s of
                None \<Rightarrow> (- pte_internal, [OS_fstat])
              | Some recorded \<Rightarrow>
                  if st_size st \<noteq> st_size (stat recorded) then (- pte_bad_image, [OS_fstat])
                  else if st_mtime st \<noteq> st_mtime (stat recorded) then (- pte_bad_image, [OS_fstat])
                  else (0, [OS_fstat]))))"

subsection \<open>Mapping a section\<close>

definition granularity :: "os_world \<Rightarrow> 32 word" where
  "granularity w = allocation_granularity w"

text \<open>
  \<^verbatim>\<open>pt_sec_windows_map\<close>. On success the mapping, the unmap and the read function of
  the section are set; on every error the section is as it was. The remainder by an
  allocation granularity of 0 is undefined in C and the offset itself in HOL.
\<close>

definition pt_sec_windows_map ::
  "os_world \<Rightarrow> ('z pt_section_scheme) option \<Rightarrow> int
     \<Rightarrow> int \<times> ('z pt_section_scheme) option \<times> os_call list" where
  "pt_sec_windows_map w section fd_arg =
     (case section of
        None \<Rightarrow> (- pte_internal, None, [])
      | Some s \<Rightarrow>
          (let offset0 = offset s;
               size0 = size_sec s;
               adjustment = offset0 mod ucast (granularity w);
               offset1 = offset0 - adjustment;
               size1 = size0 + adjustment in
           if size1 < size_sec s then (- pte_internal, section, [OS_GetSystemInfo])
           else
             (let dsize = (ucast size1 :: 32 word) in
              if (ucast dsize :: 64 word) \<noteq> size1 then (- pte_internal, section, [OS_GetSystemInfo])
              else
                (case create_file_mapping_result w of
                   None \<Rightarrow>
                     (- pte_bad_image, section,
                      [OS_GetSystemInfo, OS_get_osfhandle, OS_CreateFileMapping])
                 | Some mh_new \<Rightarrow>
                     (let base_new = map_view_of_file_result w in
                      if base_new = 0
                      then (- pte_bad_image, section,
                            [OS_GetSystemInfo, OS_get_osfhandle, OS_CreateFileMapping,
                             OS_MapViewOfFile, OS_CloseHandle])
                      else if \<not> malloc_succeeds w
                      then (- pte_bad_image, section,
                            [OS_GetSystemInfo, OS_get_osfhandle, OS_CreateFileMapping,
                             OS_MapViewOfFile, OS_malloc, OS_UnmapViewOfFile, OS_CloseHandle])
                      else
                        (0,
                         Some (s\<lparr>mapping := Some \<lparr>fd = fd_arg, mh = mh_new, base = base_new,
                                              begin = base_new + adjustment,
                                              end = base_new + size1\<rparr>,
                                 unmap := Some Pt_sec_windows_unmap,
                                 read := Some Pt_sec_windows_read\<rparr>),
                         [OS_GetSystemInfo, OS_get_osfhandle, OS_CreateFileMapping,
                          OS_MapViewOfFile, OS_malloc]))))))"

text \<open>
  The two attempts of \<^verbatim>\<open>pt_section_map\<close> to open the file: read-only sharing first,
  then write sharing.
\<close>

definition open_section_file :: "os_world \<Rightarrow> nat option \<times> os_call list" where
  "open_section_file w =
     (case create_file_share_read w of
        Some fh \<Rightarrow> (Some fh, [OS_CreateFile_share_read])
      | None \<Rightarrow>
          (create_file_share_write w, [OS_CreateFile_share_read, OS_CreateFile_share_write]))"

text \<open>
  \<^verbatim>\<open>pt_section_map\<close>. The fallback \<^verbatim>\<open>pt_sec_file_map\<close> is declared outside the sources
  and is a parameter: it gives an error code and the section it leaves. The exits
  through the label \<^verbatim>\<open>out_fd\<close> close the file descriptor and return; they do not
  reach \<^verbatim>\<open>pt_section_unlock\<close>.
\<close>

definition pt_section_map ::
  "os_world \<Rightarrow> ('z pt_section_scheme \<Rightarrow> int \<times> 'z pt_section_scheme)
     \<Rightarrow> ('z pt_section_scheme) option
     \<Rightarrow> int \<times> ('z pt_section_scheme) option \<times> os_call list" where
  "pt_section_map w pt_sec_file_map section =
     (case section of
        None \<Rightarrow> (- pte_internal, None, [])
      | Some s \<Rightarrow>
          (let errcode = lock_result w in
           if errcode < 0 then (errcode, section, [OS_pt_section_lock])
           else
             (let mcount1 = mcount s + 1 in
              if 1 < mcount1
              then (unlock_result w, Some (s\<lparr>mcount := mcount1\<rparr>),
                    [OS_pt_section_lock, OS_pt_section_unlock])
              else if mcount1 = 0
              then (- pte_internal, section, [OS_pt_section_lock, OS_pt_section_unlock])
              else if mapping s \<noteq> None
              then (- pte_internal, section, [OS_pt_section_lock, OS_pt_section_unlock])
              else if filename s = None
              then (- pte_internal, section, [OS_pt_section_lock, OS_pt_section_unlock])
              else
                (case open_section_file w of
                   (None, opened) \<Rightarrow>
                     (- pte_bad_image, section,
                      OS_pt_section_lock # opened @ [OS_pt_section_unlock])
                 | (Some fh, opened) \<Rightarrow>
                     (let fd_new = open_osfhandle_result w in
                      if fd_new = - 1
                      then (- pte_bad_image, section,
                            OS_pt_section_lock # opened
                              @ [OS_open_osfhandle, OS_CloseHandle, OS_pt_section_unlock])
                      else
                        (case check_file_status w section fd_new of
                           (errcode1, checked) \<Rightarrow>
                             if errcode1 < 0
                             then (- pte_bad_image, section,
                                   OS_pt_section_lock # opened @ [OS_open_osfhandle]
                                     @ checked @ [OS_close])
                             else
                               (case pt_sec_windows_map w section fd_new of
                                  (errcode2, section2, mapped) \<Rightarrow>
                                    if errcode2 = 0
                                    then (unlock_result w,
                                          map_option (\<lambda>s2. s2\<lparr>mcount := 1\<rparr>) section2,
                                          OS_pt_section_lock # opened @ [OS_open_osfhandle]
                                            @ checked @ mapped @ [OS_pt_section_unlock])
                                    else if \<not> fdopen_succeeds w
                                    then (- pte_bad_image, section2,
                                          OS_pt_section_lock # opened @ [OS_open_osfhandle]
                                            @ checked @ mapped @ [OS_fdopen, OS_close])
                                    else
                                      (case pt_sec_file_map (case section2 of Some s2 \<Rightarrow> s2 | None \<Rightarrow> s) of
                                         (errcode3, s3) \<Rightarrow>
                                           if errcode3 = 0
                                           then (unlock_result w, Some (s3\<lparr>mcount := 1\<rparr>),
                                                 OS_pt_section_lock # opened @ [OS_open_osfhandle]
                                                   @ checked @ mapped
                                                   @ [OS_fdopen, OS_pt_sec_file_map,
                                                      OS_pt_section_unlock])
                                           else (errcode3, Some s3,
                                                 OS_pt_section_lock # opened @ [OS_open_osfhandle]
                                                   @ checked @ mapped
                                                   @ [OS_fdopen, OS_pt_sec_file_map, OS_fclose,
                                                      OS_pt_section_unlock])))))))))"

subsection \<open>Reading from a mapped section\<close>

text \<open>
  \<^verbatim>\<open>pt_sec_windows_read\<close>. The memory is a function from addresses to bytes, and the
  buffer is given by its address. The pointer additions wrap at 64 bits. The result
  is the \<^verbatim>\<open>int\<close> the function returns and the bytes \<^verbatim>\<open>memcpy\<close> stores at the start
  of the buffer, in order; the number of bytes is the \<^verbatim>\<open>int\<close> \<^verbatim>\<open>bytes\<close> converted to
  \<^verbatim>\<open>size_t\<close>.
\<close>

definition pt_sec_windows_read ::
  "(ptr \<Rightarrow> 8 word) \<Rightarrow> ('z pt_section_scheme) option \<Rightarrow> ptr \<Rightarrow> 16 word \<Rightarrow> 64 word
     \<Rightarrow> int \<times> 8 word list" where
  "pt_sec_windows_read mem section buffer sz offs =
     (case section of
        None \<Rightarrow> (- pte_invalid, [])
      | Some s \<Rightarrow>
          if buffer = 0 then (- pte_invalid, [])
          else
            (case mapping s of
               None \<Rightarrow> (- pte_internal, [])
             | Some m \<Rightarrow>
                 (let begin0 = begin m + offs;
                      end0 = begin0 + ucast sz in
                  if end0 < begin0 then (- pte_nomap, [])
                  else if end m \<le> begin0 then (- pte_nomap, [])
                  else if begin0 < begin m then (- pte_nomap, [])
                  else
                    (let end1 = (if end m < end0 then end m else end0);
                         bytes = (ucast (end1 - begin0) :: 32 word);
                         count = unat (scast bytes :: 64 word) in
                     (sint bytes, map (\<lambda>i. mem (begin0 + of_nat i)) [0 ..< count])))))"

section \<open>Properties of the constants and of the execution-mode encoding\<close>

text \<open>
  Claim C8. A PSB packet is 16 bytes, the pattern 0x02 0x82 eight times:
  \<^verbatim>\<open>pt_psb_hi\<close> is 0x02, \<^verbatim>\<open>pt_psb_lo\<close> is 0x82, the payload is the two-byte pattern
  repeated \<^verbatim>\<open>pt_psb_repeat_count = 7\<close> times after the two opcode bytes, and
  \<^verbatim>\<open>ptps_psb = pt_opcs_psb + pt_pl_psb_size = 16\<close>.
\<close>

theorem psb_packet_layout:
  "pt_psb_hi = 0x02 \<and> pt_psb_lo = 0x82 \<and> pt_psb_repeat_count = 7
   \<and> pt_opcs_psb = 2 \<and> pt_pl_psb_size = 14
   \<and> ptps_psb = pt_opcs_psb + pt_pl_psb_size \<and> ptps_psb = 16
   \<and> psb_packet_bytes = concat (replicate 8 [0x02, 0x82])
   \<and> int (length psb_packet_bytes) = ptps_psb"
  by (simp add: psb_packet_bytes_def ptps_psb_def pt_pl_psb_size_def pt_opcs_psb_def
      pt_psb_repeat_count_def pt_psb_repeat_size_def pt_psb_hi_def pt_psb_lo_def
      pt_opc_psb_def pt_opc_ext_def pt_ext_psb_def eval_nat_numeral)

text \<open>
  Claim C9. Setting and then reading back an execution mode gives the mode again, for
  each of the four modes, so the (csl, csd) encoding loses none of them.
\<close>

theorem exec_mode_roundtrip:
  "pt_get_exec_mode (pt_set_exec_mode m) = m"
  by (cases m) (simp_all add: pt_get_exec_mode_def)

section \<open>The decoder's cursor\<close>

text \<open>
  Claim C3. For a decoder whose cursor lies between the begin and the end of the
  buffer and any signed amount, \<^verbatim>\<open>pt_advance\<close> either returns 0 and leaves the cursor
  at the advanced position, which again lies between begin and end, or returns
  \<^verbatim>\<open>-pte_eos\<close>, which it does when the advanced position lies outside the buffer;
  in both cases the cursor it leaves does not exceed the end of the buffer.
\<close>

theorem pt_advance_cursor_in_buffer:
  assumes "config_begin d \<le> pos d" and "pos d \<le> config_end d"
  shows "(pt_advance (Some d) sz = (0, Some (d\<lparr>pos := pos d + scast sz\<rparr>))
            \<and> config_begin d \<le> pos d + scast sz \<and> pos d + scast sz \<le> config_end d
          \<or> pt_advance (Some d) sz = (- pte_eos, Some d)
            \<and> (pos d + scast sz < config_begin d \<or> config_end d < pos d + scast sz))
       \<and> pos (the (snd (pt_advance (Some d) sz))) \<le> config_end d"
  using assms by (auto simp: pt_advance_def Let_def not_less)

theorem pt_advance_cursor_in_buffer_witness:
  "pt_advance (Some \<lparr>config_begin = 0x1000, config_end = 0x1010, pos = 0x1004,
              sync = 0x1000, ev_begin = (\<lambda>_. 0), ev_end = (\<lambda>_. 0),
              ev_pend = (\<lambda>_ _. 0::nat)\<rparr>) 8
   = (0, Some \<lparr>config_begin = 0x1000, config_end = 0x1010, pos = 0x100C,
              sync = 0x1000, ev_begin = (\<lambda>_. 0), ev_end = (\<lambda>_. 0),
              ev_pend = (\<lambda>_ _. 0::nat)\<rparr>)"
  using pt_advance_cursor_in_buffer
    [of "\<lparr>config_begin = 0x1000, config_end = 0x1010, pos = 0x1004,
           sync = 0x1000, ev_begin = (\<lambda>_. 0), ev_end = (\<lambda>_. 0),
           ev_pend = (\<lambda>_ _. 0::nat)\<rparr>" 8]
  by (simp add: pte_eos_def)

text \<open>
  Claim C4. When \<^verbatim>\<open>pt_advance\<close> returns a negative value, that value is
  \<^verbatim>\<open>-pte_invalid\<close> or \<^verbatim>\<open>-pte_eos\<close> and the decoder, its cursor included, is as it
  was before the call.
\<close>

theorem pt_advance_error_keeps_state:
  assumes "pt_advance decoder sz = (r, decoder')" and "r < 0"
  shows "decoder' = decoder \<and> (r = - pte_invalid \<or> r = - pte_eos)"
  using assms
  by (auto simp: pt_advance_def Let_def split: option.splits if_splits)

theorem pt_advance_error_keeps_state_witness:
  "pt_advance (Some \<lparr>config_begin = 0x1000, config_end = 0x1010, pos = 0x1004,
       sync = 0x1000, ev_begin = (\<lambda>_. 0), ev_end = (\<lambda>_. 0),
       ev_pend = (\<lambda>_ _. 0::nat)\<rparr>) 0x10
   = (- pte_eos, Some \<lparr>config_begin = 0x1000, config_end = 0x1010, pos = 0x1004,
       sync = 0x1000, ev_begin = (\<lambda>_. 0), ev_end = (\<lambda>_. 0),
       ev_pend = (\<lambda>_ _. 0::nat)\<rparr>)
   \<and> - pte_eos < 0"
proof -
  let ?d = "\<lparr>config_begin = 0x1000, config_end = 0x1010, pos = 0x1004,
       sync = 0x1000, ev_begin = (\<lambda>_. 0), ev_end = (\<lambda>_. 0),
       ev_pend = (\<lambda>_ _. 0::nat)\<rparr> :: nat pt_decoder"
  obtain r d' where run: "pt_advance (Some ?d) 0x10 = (r, d')"
    by (cases "pt_advance (Some ?d) 0x10") 
  have r: "r = - pte_eos"
    using run by (simp add: pt_advance_def Let_def)
  have neg: "r < 0"
    by (simp add: r pte_eos_def)
  from pt_advance_error_keeps_state [OF run neg] run r neg show ?thesis
    by simp
qed

text \<open>
  Claim C10. \<^verbatim>\<open>pt_get_decoder_pos\<close> and \<^verbatim>\<open>pt_get_decoder_sync\<close> return 0 for a null
  decoder and for a decoder whose position, respectively synchronization point, is
  null; they return the same 0 for a decoder positioned, respectively synchronized,
  at the begin of its buffer, so the result does not tell the two apart.
\<close>

theorem decoder_offset_zero_when_unset:
  assumes "pos d1 = 0" and "sync d1 = 0"
    and "pos d2 = pt_begin d2" and "sync d2 = pt_begin d2"
  shows "pt_get_decoder_pos pt_begin None = 0
       \<and> pt_get_decoder_sync pt_begin None = 0
       \<and> pt_get_decoder_pos pt_begin (Some d1) = 0
       \<and> pt_get_decoder_sync pt_begin (Some d1) = 0
       \<and> pt_get_decoder_pos pt_begin (Some d2) = pt_get_decoder_pos pt_begin (Some d1)
       \<and> pt_get_decoder_sync pt_begin (Some d2) = pt_get_decoder_sync pt_begin (Some d1)"
  using assms by (simp add: pt_get_decoder_pos_def pt_get_decoder_sync_def Let_def)

theorem decoder_offset_zero_when_unset_witness:
  "pt_get_decoder_pos config_begin
     (Some \<lparr>config_begin = 0x1000, config_end = 0x1010, pos = 0,
        sync = 0, ev_begin = (\<lambda>_. 0), ev_end = (\<lambda>_. 0),
        ev_pend = (\<lambda>_ _. 0::nat)\<rparr>) = 0
   \<and> pt_get_decoder_pos config_begin
     (Some \<lparr>config_begin = 0x1000, config_end = 0x1010, pos = 0x1000,
        sync = 0x1000, ev_begin = (\<lambda>_. 0), ev_end = (\<lambda>_. 0),
        ev_pend = (\<lambda>_ _. 0::nat)\<rparr>) = 0"
  using decoder_offset_zero_when_unset
    [of "\<lparr>config_begin = 0x1000, config_end = 0x1010, pos = 0,
           sync = 0, ev_begin = (\<lambda>_. 0), ev_end = (\<lambda>_. 0),
           ev_pend = (\<lambda>_ _. 0::nat)\<rparr>"
        "\<lparr>config_begin = 0x1000, config_end = 0x1010, pos = 0x1000,
           sync = 0x1000, ev_begin = (\<lambda>_. 0), ev_end = (\<lambda>_. 0),
           ev_pend = (\<lambda>_ _. 0::nat)\<rparr>" config_begin]
  by simp


section \<open>The event queues\<close>

lemma mod_once:
  fixes x n :: nat
  assumes "x < 2 * n"
  shows "x mod n = (if x < n then x else x - n)"
proof (cases "x < n")
  case True
  then show ?thesis by simp
next
  case False
  then have "x mod n = (x - n) mod n"
    by (simp add: le_mod_geq)
  also have "\<dots> = x - n"
    using assms False by simp
  finally show ?thesis using False by simp
qed

lemma unat_pt_queue_inc:
  assumes "0 < n" and "n \<le> 256" and "unat idx < n"
  shows "unat (pt_queue_inc n idx) = (unat idx + 1) mod n"
proof -
  have a: "unat (idx + 1) = (unat idx + 1) mod 256"
    by (simp add: unat_word_ariths)
  have b: "(unat idx + 1) mod 256 mod n = (unat idx + 1) mod n"
  proof (cases "unat idx + 1 < 256")
    case True
    then show ?thesis by simp
  next
    case False
    with assms have "n = 256" and "unat idx + 1 = 256" by simp_all
    then show ?thesis by simp
  qed
  have c: "(unat idx + 1) mod n < 256"
    using assms by (meson less_le_trans mod_less_divisor)
  have "unat (pt_queue_inc n idx) = (unat (idx + 1) mod n) mod 256"
    by (simp add: pt_queue_inc_def Let_def unat_of_nat)
  also have "\<dots> = ((unat idx + 1) mod n) mod 256"
    by (simp only: a b)
  also have "\<dots> = (unat idx + 1) mod n"
    using c by (rule mod_less)
  finally show ?thesis .
qed

lemma pt_queue_inc_less:
  assumes "0 < n" and "n \<le> 256" and "unat idx < n"
  shows "unat (pt_queue_inc n idx) < n"
  using assms by (simp add: unat_pt_queue_inc)

lemma ring_gap_iff:
  fixes b e n :: nat
  assumes "2 \<le> n" and "b < n" and "e < n"
  shows "b = ((e + 1) mod n + 1) mod n \<longleftrightarrow> (e + n - b) mod n = n - 2"
proof -
  have 1: "(e + 1) mod n = (if e + 1 < n then e + 1 else 0)"
    using assms by (simp add: mod_once)
  have 2: "(e + n - b) mod n = (if b \<le> e then e - b else e + n - b)"
    using assms by (simp add: mod_once)
  show ?thesis
  proof (cases "e + 1 < n")
    case True
    then have "((e + 1) mod n + 1) mod n = (if e + 2 < n then e + 2 else 0)"
      using assms by (simp add: mod_once)
    then show ?thesis using assms True 2 by (auto split: if_splits)
  next
    case False
    then have "((e + 1) mod n + 1) mod n = 1"
      using assms 1 by simp
    then show ?thesis using assms False 2 by (auto split: if_splits)
  qed
qed

lemma ring_count_step:
  fixes b e n :: nat
  assumes "2 \<le> n" and "b < n" and "e < n" and "(e + n - b) mod n < n - 1"
  shows "((e + 1) mod n + n - b) mod n = (e + n - b) mod n + 1"
proof -
  have 1: "(e + 1) mod n = (if e + 1 < n then e + 1 else 0)"
    using assms by (simp add: mod_once)
  have 2: "(e + n - b) mod n = (if b \<le> e then e - b else e + n - b)"
    using assms by (simp add: mod_once)
  show ?thesis
    using assms(1-3) assms(4)[unfolded 2] unfolding 1 2
    by (auto simp: mod_once split: if_splits)
qed

lemma ring_slot_tail:
  fixes b e n :: nat
  assumes "0 < n" and "b < n" and "e < n"
  shows "(b + (e + n - b) mod n) mod n = e"
proof -
  have 2: "(e + n - b) mod n = (if b \<le> e then e - b else e + n - b)"
    using assms by (simp add: mod_once)
  show ?thesis unfolding 2 using assms by (auto simp: mod_once)
qed

lemma ring_slot_distinct:
  fixes b e n i :: nat
  assumes "0 < n" and "b < n" and "e < n" and "i < (e + n - b) mod n"
  shows "(b + i) mod n \<noteq> e"
proof -
  have 2: "(e + n - b) mod n = (if b \<le> e then e - b else e + n - b)"
    using assms by (simp add: mod_once)
  show ?thesis using assms(1-3) assms(4)[unfolded 2] by (auto simp: mod_once split: if_splits)
qed

lemma ring_count_deq:
  fixes b e n :: nat
  assumes "0 < n" and "b < n" and "e < n" and "b \<noteq> e"
  shows "(e + n - (b + 1) mod n) mod n = (e + n - b) mod n - 1"
    and "0 < (e + n - b) mod n"
proof -
  have 1: "(b + 1) mod n = (if b + 1 < n then b + 1 else 0)"
    using assms by (simp add: mod_once)
  have 2: "(e + n - b) mod n = (if b \<le> e then e - b else e + n - b)"
    using assms by (simp add: mod_once)
  show "(e + n - (b + 1) mod n) mod n = (e + n - b) mod n - 1"
    unfolding 1 2 using assms by (auto simp: mod_once)
  show "0 < (e + n - b) mod n"
    unfolding 2 using assms by auto
qed

lemma ring_count_zero_iff:
  fixes b e n :: nat
  assumes "0 < n" and "b < n" and "e < n"
  shows "(e + n - b) mod n = 0 \<longleftrightarrow> b = e"
proof -
  have 2: "(e + n - b) mod n = (if b \<le> e then e - b else e + n - b)"
    using assms by (simp add: mod_once)
  show ?thesis unfolding 2 using assms by auto
qed

lemma ring_count_less:
  fixes b e n :: nat
  assumes "0 < n"
  shows "(e + n - b) mod n < n"
  using assms by simp

lemma pt_enqueue_event_full_iff:
  assumes "2 \<le> n" and "n \<le> 256" and "ev_indices_ok n d evb"
  shows "ev_begin d evb = pt_queue_inc n (pt_queue_inc n (ev_end d evb))
         \<longleftrightarrow> ev_count n d evb = n - 2"
proof -
  from assms have b: "unat (ev_begin d evb) < n" and e: "unat (ev_end d evb) < n"
    by (simp_all add: ev_indices_ok_def)
  have n: "0 < n" using assms by simp
  have e1: "unat (pt_queue_inc n (ev_end d evb)) = (unat (ev_end d evb) + 1) mod n"
    using n assms(2) e by (rule unat_pt_queue_inc)
  have e1n: "unat (pt_queue_inc n (ev_end d evb)) < n"
    using n assms(2) e by (rule pt_queue_inc_less)
  have g: "unat (pt_queue_inc n (pt_queue_inc n (ev_end d evb)))
           = ((unat (ev_end d evb) + 1) mod n + 1) mod n"
    using unat_pt_queue_inc [OF n assms(2) e1n] by (simp only: e1)
  have "ev_begin d evb = pt_queue_inc n (pt_queue_inc n (ev_end d evb))
        \<longleftrightarrow> unat (ev_begin d evb) = ((unat (ev_end d evb) + 1) mod n + 1) mod n"
    by (simp only: word_unat_eq_iff g)
  also have "\<dots> \<longleftrightarrow> ev_count n d evb = n - 2"
    unfolding ev_count_def using assms(1) b e by (rule ring_gap_iff)
  finally show ?thesis .
qed

lemma pt_enqueue_event_eval:
  assumes "2 \<le> n" and "n \<le> 256" and "evb < evb_max" and "ev_indices_ok n d evb"
  shows "pt_enqueue_event evb_max n (Some d) evb =
           (if ev_count n d evb = n - 2 then (None, Some d)
            else (Some (evb, unat (ev_end d evb)),
                  Some (ev_write (d\<lparr>ev_end := (ev_end d)(evb := pt_queue_inc n (ev_end d evb))\<rparr>)
                          (evb, unat (ev_end d evb)) 0)))"
proof -
  from assms have b: "\<not> n \<le> unat (ev_begin d evb)" and e: "\<not> n \<le> unat (ev_end d evb)"
    by (simp_all add: ev_indices_ok_def)
  have x: "\<not> evb_max \<le> evb" using assms by simp
  show ?thesis
    unfolding pt_enqueue_event_def
    by (simp add: Let_def b e x pt_enqueue_event_full_iff [OF assms(1,2,4)])
qed

lemma pt_dequeue_event_eval:
  assumes "evb < evb_max" and "ev_indices_ok n d evb"
  shows "pt_dequeue_event evb_max n (Some d) evb =
           (if ev_begin d evb = ev_end d evb then (None, Some d)
            else (Some (evb, unat (ev_begin d evb)),
                  Some (d\<lparr>ev_begin := (ev_begin d)(evb := pt_queue_inc n (ev_begin d evb))\<rparr>)))"
proof -
  from assms have b: "\<not> n \<le> unat (ev_begin d evb)" and e: "\<not> n \<le> unat (ev_end d evb)"
    by (simp_all add: ev_indices_ok_def)
  have x: "\<not> evb_max \<le> evb" using assms by simp
  show ?thesis
    unfolding pt_dequeue_event_def by (simp add: Let_def b e x)
qed

lemma ev_empty_iff:
  assumes "0 < n" and "ev_indices_ok n d evb"
  shows "ev_begin d evb = ev_end d evb \<longleftrightarrow> ev_count n d evb = 0"
    and "ev_queued n d evb = [] \<longleftrightarrow> ev_count n d evb = 0"
proof -
  from assms have b: "unat (ev_begin d evb) < n" and e: "unat (ev_end d evb) < n"
    by (simp_all add: ev_indices_ok_def)
  show "ev_begin d evb = ev_end d evb \<longleftrightarrow> ev_count n d evb = 0"
    unfolding ev_count_def ring_count_zero_iff [OF assms(1) b e]
    by (simp only: word_unat_eq_iff)
  show "ev_queued n d evb = [] \<longleftrightarrow> ev_count n d evb = 0"
    by (simp add: ev_queued_def)
qed

text \<open>The state after a successful enqueue, once the caller has stored its event.\<close>

lemma ev_enqueued_state:
  fixes v :: "'e"
  fixes d :: "('e, 'z) pt_decoder_scheme"
  assumes "2 \<le> n" and "n \<le> 256" and "ev_indices_ok n d evb"
    and "ev_count n d evb < n - 1"
  defines "d' \<equiv> ev_write (d\<lparr>ev_end := (ev_end d)(evb := pt_queue_inc n (ev_end d evb))\<rparr>)
                   (evb, unat (ev_end d evb)) v"
  shows "ev_indices_ok n d' evb"
    and "ev_count n d' evb = ev_count n d evb + 1"
    and "ev_queued n d' evb = ev_queued n d evb @ [v]"
proof -
  from assms have b: "unat (ev_begin d evb) < n" and e: "unat (ev_end d evb) < n"
    by (simp_all add: ev_indices_ok_def)
  have n: "0 < n" using assms by simp
  have e1: "unat (pt_queue_inc n (ev_end d evb)) = (unat (ev_end d evb) + 1) mod n"
    using n assms(2) e by (rule unat_pt_queue_inc)
  have bd: "ev_begin d' evb = ev_begin d evb"
    and ed: "ev_end d' evb = pt_queue_inc n (ev_end d evb)"
    and pd: "ev_pend d' evb = (ev_pend d evb)(unat (ev_end d evb) := v)"
    by (simp_all add: d'_def ev_write_def)
  show ok: "ev_indices_ok n d' evb"
    using b n by (simp add: ev_indices_ok_def bd ed e1)
  show cnt: "ev_count n d' evb = ev_count n d evb + 1"
    using ring_count_step [OF assms(1) b e] assms(4)
    by (simp add: ev_count_def bd ed e1)
  have tail: "(unat (ev_begin d evb) + ev_count n d evb) mod n = unat (ev_end d evb)"
    unfolding ev_count_def using n b e by (rule ring_slot_tail)
  have other: "i < ev_count n d evb \<Longrightarrow> (unat (ev_begin d evb) + i) mod n \<noteq> unat (ev_end d evb)" for i
    unfolding ev_count_def using n b e by (rule ring_slot_distinct)
  have "ev_queued n d' evb =
          map (\<lambda>i. ev_pend d' evb ((unat (ev_begin d evb) + i) mod n)) [0 ..< ev_count n d evb]
          @ [ev_pend d' evb ((unat (ev_begin d evb) + ev_count n d evb) mod n)]"
    by (simp add: ev_queued_def cnt bd)
  also have "map (\<lambda>i. ev_pend d' evb ((unat (ev_begin d evb) + i) mod n)) [0 ..< ev_count n d evb]
              = ev_queued n d evb"
    unfolding ev_queued_def by (rule map_cong) (simp_all add: pd other)
  also have "ev_pend d' evb ((unat (ev_begin d evb) + ev_count n d evb) mod n) = v"
    by (simp add: tail pd)
  finally show "ev_queued n d' evb = ev_queued n d evb @ [v]" .
qed

lemma ev_enqueued_other:
  fixes v :: "'e" and e1 :: "8 word" and i :: nat
  fixes d :: "('e, 'z) pt_decoder_scheme"
  assumes "evb' \<noteq> evb"
  defines "d' \<equiv> ev_write (d\<lparr>ev_end := (ev_end d)(evb := e1)\<rparr>) (evb, i) v"
  shows "ev_indices_ok n d' evb' = ev_indices_ok n d evb'"
    and "ev_count n d' evb' = ev_count n d evb'"
    and "ev_queued n d' evb' = ev_queued n d evb'"
  using assms by (simp_all add: ev_indices_ok_def ev_count_def ev_queued_def ev_write_def)

lemma ev_dequeued_state:
  assumes "0 < n" and "n \<le> 256" and "ev_indices_ok n d evb"
    and "ev_begin d evb \<noteq> ev_end d evb"
  defines "d' \<equiv> d\<lparr>ev_begin := (ev_begin d)(evb := pt_queue_inc n (ev_begin d evb))\<rparr>"
  shows "ev_indices_ok n d' evb"
    and "ev_count n d' evb = ev_count n d evb - 1"
    and "ev_queued n d evb = ev_read d' (evb, unat (ev_begin d evb)) # ev_queued n d' evb"
proof -
  from assms have b: "unat (ev_begin d evb) < n" and e: "unat (ev_end d evb) < n"
    by (simp_all add: ev_indices_ok_def)
  have ne: "unat (ev_begin d evb) \<noteq> unat (ev_end d evb)"
    using assms(4) by (simp only: word_unat_eq_iff not_False_eq_True)
  have b1: "unat (pt_queue_inc n (ev_begin d evb)) = (unat (ev_begin d evb) + 1) mod n"
    using assms(1,2) b by (rule unat_pt_queue_inc)
  have bd: "ev_begin d' evb = pt_queue_inc n (ev_begin d evb)"
    and ed: "ev_end d' evb = ev_end d evb"
    and pd: "ev_pend d' = ev_pend d"
    by (simp_all add: d'_def)
  show "ev_indices_ok n d' evb"
    using e assms(1) by (simp add: ev_indices_ok_def bd ed b1)
  show cnt: "ev_count n d' evb = ev_count n d evb - 1"
    using ring_count_deq(1) [OF assms(1) b e ne]
    by (simp add: ev_count_def bd ed b1)
  have pos: "0 < ev_count n d evb"
    unfolding ev_count_def using assms(1) b e ne by (rule ring_count_deq(2))
  then obtain c where c: "ev_count n d evb = Suc c"
    by (cases "ev_count n d evb") simp_all
  have "ev_queued n d evb =
          ev_pend d evb (unat (ev_begin d evb) mod n)
          # map (\<lambda>i. ev_pend d evb ((unat (ev_begin d evb) + Suc i) mod n)) [0 ..< c]"
    by (simp add: ev_queued_def c upt_conv_Cons map_Suc_upt [symmetric] del: upt_Suc)
  also have "ev_pend d evb (unat (ev_begin d evb) mod n) = ev_read d' (evb, unat (ev_begin d evb))"
    using b by (simp add: ev_read_def pd)
  also have "map (\<lambda>i. ev_pend d evb ((unat (ev_begin d evb) + Suc i) mod n)) [0 ..< c]
             = ev_queued n d' evb"
    unfolding ev_queued_def cnt c
    by (rule map_cong) (simp_all add: pd bd b1 mod_add_left_eq)
  finally show "ev_queued n d evb = ev_read d' (evb, unat (ev_begin d evb)) # ev_queued n d' evb" .
qed

lemma ev_dequeued_other:
  fixes b1 :: "8 word"
  fixes d :: "('e, 'z) pt_decoder_scheme"
  assumes "evb' \<noteq> evb"
  defines "d' \<equiv> d\<lparr>ev_begin := (ev_begin d)(evb := b1)\<rparr>"
  shows "ev_indices_ok n d' evb' = ev_indices_ok n d evb'"
    and "ev_count n d' evb' = ev_count n d evb'"
    and "ev_queued n d' evb' = ev_queued n d evb'"
  using assms by (simp_all add: ev_indices_ok_def ev_count_def ev_queued_def)

lemma ev_write_twice:
  "ev_write (ev_write d p u) p v = ev_write d p v"
  by (simp add: ev_write_def)

lemma ev_call_step_enqueue:
  assumes "2 \<le> n" and "n \<le> 256" and "evb < evb_max" and "ev_queues_ok evb_max n d"
    and "ev_call_step evb_max n d (Enqueue evb v) = (r, d')" and "r \<noteq> Full"
  shows "r = Enqueued" and "ev_queues_ok evb_max n d'"
    and "ev_queued n d' evb = ev_queued n d evb @ [v]"
    and "\<And>evb'. evb' \<noteq> evb \<Longrightarrow> ev_queued n d' evb' = ev_queued n d evb'"
proof -
  from assms(3,4) have ok: "ev_indices_ok n d evb" and le: "ev_count n d evb + 2 \<le> n"
    by (simp_all add: ev_queues_ok_def)
  let ?d1 = "d\<lparr>ev_end := (ev_end d)(evb := pt_queue_inc n (ev_end d evb))\<rparr>"
  let ?p = "(evb, unat (ev_end d evb))"
  have notfull: "ev_count n d evb \<noteq> n - 2"
    using assms(5,6) by (auto simp: pt_enqueue_event_eval [OF assms(1,2,3) ok] split: if_splits)
  then have lt: "ev_count n d evb < n - 1" using le by simp
  have step: "r = Enqueued \<and> d' = ev_write ?d1 ?p v"
    using assms(5) notfull
    by (simp add: pt_enqueue_event_eval [OF assms(1,2,3) ok] ev_write_twice)
  then show "r = Enqueued" by simp
  from step have d': "d' = ev_write ?d1 ?p v" by simp
  note st = ev_enqueued_state [OF assms(1,2) ok lt, of v, folded d']
  show "ev_queued n d' evb = ev_queued n d evb @ [v]" by (rule st(3))
  show other: "ev_queued n d' evb' = ev_queued n d evb'" if "evb' \<noteq> evb" for evb'
    unfolding d' using that by (rule ev_enqueued_other(3))
  have "ev_count n d' evb + 2 \<le> n"
    using st(2) notfull le by simp
  with st(1) have here: "ev_indices_ok n d' evb \<and> ev_count n d' evb + 2 \<le> n" ..
  show "ev_queues_ok evb_max n d'"
    unfolding ev_queues_ok_def
  proof (intro allI impI)
    fix evb' assume lt': "evb' < evb_max"
    show "ev_indices_ok n d' evb' \<and> ev_count n d' evb' + 2 \<le> n"
    proof (cases "evb' = evb")
      case True
      with here show ?thesis by simp
    next
      case False
      from assms(4) lt' have "ev_indices_ok n d evb' \<and> ev_count n d evb' + 2 \<le> n"
        by (simp add: ev_queues_ok_def)
      then show ?thesis
        unfolding d' by (simp add: ev_enqueued_other(1,2) [OF False])
    qed
  qed
qed

lemma ev_call_step_dequeue:
  assumes "0 < n" and "n \<le> 256" and "evb < evb_max" and "ev_queues_ok evb_max n d"
    and "ev_call_step evb_max n d (Dequeue evb) = (r, d')"
  shows "ev_queues_ok evb_max n d'"
    and "(r, ev_queued n d' evb) =
          (case ev_queued n d evb of [] \<Rightarrow> (Empty, []) | x # xs \<Rightarrow> (Dequeued x, xs))"
    and "\<And>evb'. evb' \<noteq> evb \<Longrightarrow> ev_queued n d' evb' = ev_queued n d evb'"
proof -
  from assms(3,4) have ok: "ev_indices_ok n d evb" and le: "ev_count n d evb + 2 \<le> n"
    by (simp_all add: ev_queues_ok_def)
  note ev = pt_dequeue_event_eval [OF assms(3) ok]
  show "ev_queues_ok evb_max n d'"
    and "(r, ev_queued n d' evb) =
          (case ev_queued n d evb of [] \<Rightarrow> (Empty, []) | x # xs \<Rightarrow> (Dequeued x, xs))"
    and "\<And>evb'. evb' \<noteq> evb \<Longrightarrow> ev_queued n d' evb' = ev_queued n d evb'"
  proof (atomize (full), cases "ev_begin d evb = ev_end d evb")
    case True
    then have "r = Empty" and "d' = d"
      using assms(5) by (simp_all add: ev)
    moreover have "ev_queued n d evb = []"
      using True ev_empty_iff [OF assms(1) ok] by simp
    ultimately show "ev_queues_ok evb_max n d' \<and>
      (r, ev_queued n d' evb) =
          (case ev_queued n d evb of [] \<Rightarrow> (Empty, []) | x # xs \<Rightarrow> (Dequeued x, xs)) \<and>
      (\<forall>evb'. evb' \<noteq> evb \<longrightarrow> ev_queued n d' evb' = ev_queued n d evb')"
      using assms(4) by simp
  next
    case False
    let ?d1 = "d\<lparr>ev_begin := (ev_begin d)(evb := pt_queue_inc n (ev_begin d evb))\<rparr>"
    have r: "r = Dequeued (ev_read ?d1 (evb, unat (ev_begin d evb)))" and d': "d' = ?d1"
      using assms(5) False by (auto simp: ev)
    note st = ev_dequeued_state [OF assms(1,2) ok False, folded d']
    have here: "ev_indices_ok n d' evb \<and> ev_count n d' evb + 2 \<le> n"
      using st(1,2) le by simp
    have q: "ev_queues_ok evb_max n d'"
      unfolding ev_queues_ok_def
    proof (intro allI impI)
      fix evb' assume lt': "evb' < evb_max"
      show "ev_indices_ok n d' evb' \<and> ev_count n d' evb' + 2 \<le> n"
      proof (cases "evb' = evb")
        case True
        with here show ?thesis by simp
      next
        case neq: False
        from assms(4) lt' have "ev_indices_ok n d evb' \<and> ev_count n d evb' + 2 \<le> n"
          by (simp add: ev_queues_ok_def)
        then show ?thesis
          unfolding d' by (simp add: ev_dequeued_other(1,2) [OF neq])
      qed
    qed
    have o: "\<forall>evb'. evb' \<noteq> evb \<longrightarrow> ev_queued n d' evb' = ev_queued n d evb'"
      unfolding d' by (simp add: ev_dequeued_other(3))
    show "ev_queues_ok evb_max n d' \<and>
      (r, ev_queued n d' evb) =
          (case ev_queued n d evb of [] \<Rightarrow> (Empty, []) | x # xs \<Rightarrow> (Dequeued x, xs)) \<and>
      (\<forall>evb'. evb' \<noteq> evb \<longrightarrow> ev_queued n d' evb' = ev_queued n d evb')"
      using q o st(3) r d' by simp
  qed
qed

subsection \<open>First in, first out\<close>

lemma ev_calls_fifo:
  assumes "2 \<le> n" and "n \<le> 256"
    and "ev_queues_ok evb_max n d"
    and "\<forall>c \<in> set cs. ev_binding c < evb_max"
    and "Full \<notin> set (fst (ev_calls evb_max n d cs))"
    and "\<forall>evb < evb_max. q evb = ev_queued n d evb"
  shows "fst (ev_calls evb_max n d cs) = fifo_calls q cs
         \<and> ev_queues_ok evb_max n (snd (ev_calls evb_max n d cs))"
  using assms(3-6)
proof (induction cs arbitrary: d q)
  case Nil
  then show ?case by simp
next
  case (Cons c cs)
  obtain r d' where step: "ev_call_step evb_max n d c = (r, d')"
    by (cases "ev_call_step evb_max n d c")
  obtain rs d'' where rest: "ev_calls evb_max n d' cs = (rs, d'')"
    by (cases "ev_calls evb_max n d' cs")
  have run: "ev_calls evb_max n d (c # cs) = (r # rs, d'')"
    by (simp add: step rest)
  from Cons.prems(3) run rest have rnf: "r \<noteq> Full"
    and nf: "Full \<notin> set (fst (ev_calls evb_max n d' cs))"
    by auto
  from Cons.prems(2) have bc: "ev_binding c < evb_max"
    and bcs: "\<forall>c \<in> set cs. ev_binding c < evb_max"
    by simp_all
  have n0: "0 < n" using assms(1) by simp
  obtain q' where fstep: "fifo_step q c = (r, q')"
    and ok': "ev_queues_ok evb_max n d'"
    and rel': "\<forall>evb < evb_max. q' evb = ev_queued n d' evb"
  proof (cases c)
    case (Enqueue evb v)
    with bc have lt: "evb < evb_max" by simp
    note e = ev_call_step_enqueue [OF assms(1,2) lt Cons.prems(1) step [unfolded Enqueue] rnf]
    show ?thesis
    proof (rule that)
      show "fifo_step q c = (r, q(evb := q evb @ [v]))"
        by (simp add: Enqueue e(1))
      show "ev_queues_ok evb_max n d'" by (rule e(2))
      show "\<forall>evb' < evb_max. (q(evb := q evb @ [v])) evb' = ev_queued n d' evb'"
        using Cons.prems(4) lt by (simp add: e(3,4))
    qed
  next
    case (Dequeue evb)
    with bc have lt: "evb < evb_max" by simp
    note e = ev_call_step_dequeue [OF n0 assms(2) lt Cons.prems(1) step [unfolded Dequeue]]
    from Cons.prems(4) lt have qe: "q evb = ev_queued n d evb" by simp
    show ?thesis
    proof (rule that)
      show "fifo_step q c = (r, q(evb := ev_queued n d' evb))"
        using e(2) qe by (auto simp: Dequeue fun_upd_idem_iff split: list.splits)
      show "ev_queues_ok evb_max n d'" by (rule e(1))
      show "\<forall>evb' < evb_max. (q(evb := ev_queued n d' evb)) evb' = ev_queued n d' evb'"
        using Cons.prems(4) by (simp add: e(3))
    qed
  qed
  from Cons.IH [OF ok' bcs nf rel'] rest
  have "rs = fifo_calls q' cs" and "ev_queues_ok evb_max n d''"
    by simp_all
  then show ?case
    unfolding run by (simp add: fstep)
qed

lemma pt_dequeue_event_null_iff:
  assumes "evb < evb_max" and "ev_indices_ok n d evb"
  shows "fst (pt_dequeue_event evb_max n (Some d) evb) = None
         \<longleftrightarrow> ev_begin d evb = ev_end d evb"
  by (simp add: pt_dequeue_event_eval [OF assms])

text \<open>
  Claim C2. For a decoder whose queues are in order, between 2 and 256 slots to a
  queue, and any sequence of \<^verbatim>\<open>pt_enqueue_event\<close> and \<^verbatim>\<open>pt_dequeue_event\<close> calls for
  bindings below \<^verbatim>\<open>evb_max\<close> in which no enqueue returns the null pointer: what the
  callers observe is what first-in first-out queues, one for each binding, starting
  with the queued events, give for the same calls, so each dequeue returns the oldest
  event of its binding that has not been dequeued; and after the calls, as before
  them, \<^verbatim>\<open>pt_dequeue_event\<close> returns the null pointer exactly when head and tail of
  the binding are equal, which is when the queue holds no event.
\<close>

theorem pt_event_queue_fifo:
  assumes "2 \<le> n" and "n \<le> 256"
    and "ev_queues_ok evb_max n d"
    and "\<forall>c \<in> set cs. ev_binding c < evb_max"
    and "Full \<notin> set (fst (ev_calls evb_max n d cs))"
  shows "fst (ev_calls evb_max n d cs) = fifo_calls (ev_queued n d) cs
       \<and> (\<forall>evb < evb_max.
            (fst (pt_dequeue_event evb_max n (Some (snd (ev_calls evb_max n d cs))) evb) = None
               \<longleftrightarrow> ev_begin (snd (ev_calls evb_max n d cs)) evb
                     = ev_end (snd (ev_calls evb_max n d cs)) evb)
          \<and> (ev_begin (snd (ev_calls evb_max n d cs)) evb
                = ev_end (snd (ev_calls evb_max n d cs)) evb
               \<longleftrightarrow> ev_queued n (snd (ev_calls evb_max n d cs)) evb = []))"
proof -
  have n0: "0 < n" using assms(1) by simp
  have f: "fst (ev_calls evb_max n d cs) = fifo_calls (ev_queued n d) cs
         \<and> ev_queues_ok evb_max n (snd (ev_calls evb_max n d cs))"
    using assms by (intro ev_calls_fifo) simp_all
  then have ok: "ev_indices_ok n (snd (ev_calls evb_max n d cs)) evb" if "evb < evb_max" for evb
    using that by (simp add: ev_queues_ok_def)
  show ?thesis
    using f ok pt_dequeue_event_null_iff ev_empty_iff [OF n0] by metis
qed

text \<open>Two events enqueued for binding 1 and three dequeues.\<close>

theorem pt_event_queue_fifo_witness:
  "fst (ev_calls 3 8
          \<lparr>config_begin = 0x1000, config_end = 0x1010, pos = 0x1000, sync = 0x1000,
            ev_begin = (\<lambda>_. 0), ev_end = (\<lambda>_. 0), ev_pend = (\<lambda>_ _. 0::nat)\<rparr>
          [Enqueue 1 5, Enqueue 1 7, Dequeue 1, Dequeue 1, Dequeue 1])
   = [Enqueued, Enqueued, Dequeued 5, Dequeued 7, Empty]
   \<and> fifo_calls
       (ev_queued 8
          \<lparr>config_begin = 0x1000, config_end = 0x1010, pos = 0x1000, sync = 0x1000,
            ev_begin = (\<lambda>_. 0), ev_end = (\<lambda>_. 0), ev_pend = (\<lambda>_ _. 0::nat)\<rparr>)
       [Enqueue 1 5, Enqueue 1 7, Dequeue 1, Dequeue 1, Dequeue 1]
   = [Enqueued, Enqueued, Dequeued 5, Dequeued 7, Empty]"
proof -
  let ?d = "\<lparr>config_begin = 0x1000, config_end = 0x1010, pos = 0x1000, sync = 0x1000,
            ev_begin = (\<lambda>_. 0), ev_end = (\<lambda>_. 0), ev_pend = (\<lambda>_ _. 0::nat)\<rparr>"
  let ?cs = "[Enqueue 1 5, Enqueue 1 7, Dequeue 1, Dequeue 1, Dequeue (1::nat)] :: nat ev_call list"
  have run: "fst (ev_calls 3 8 ?d ?cs) = [Enqueued, Enqueued, Dequeued 5, Dequeued 7, Empty]"
    by (simp add: pt_enqueue_event_def pt_dequeue_event_def pt_queue_inc_def ev_write_def
        ev_read_def Let_def)
  have h1: "(2::nat) \<le> 8" and h2: "(8::nat) \<le> 256" by simp_all
  have h3: "ev_queues_ok 3 8 ?d"
    by (simp add: ev_queues_ok_def ev_indices_ok_def ev_count_def)
  have h4: "\<forall>c \<in> set ?cs. ev_binding c < 3" by simp
  have h5: "Full \<notin> set (fst (ev_calls 3 8 ?d ?cs))"
    unfolding run by simp
  from pt_event_queue_fifo [OF h1 h2 h3 h4 h5] run show ?thesis
    by simp
qed

subsection \<open>The capacity of a queue\<close>

text \<open>
  A decoder whose queues \<^verbatim>\<open>pt_reset\<close> has emptied, after six calls of
  \<^verbatim>\<open>pt_enqueue_event\<close> for binding 0 with eight slots to a queue: all six calls
  succeed and the queue of binding 0 then holds six events.
\<close>

lemma ev_reset_six_enqueues:
  "snd (pt_enqueue_event 3 8 (snd (pt_enqueue_event 3 8 (snd (pt_enqueue_event 3 8
     (snd (pt_enqueue_event 3 8 (snd (pt_enqueue_event 3 8 (snd (pt_enqueue_event 3 8
        (Some \<lparr>config_begin = 0x1000, config_end = 0x1010, pos = 0x1000, sync = 0x1000,
            ev_begin = (\<lambda>_. 0), ev_end = (\<lambda>_. 0), ev_pend = (\<lambda>_ _. 0::nat)\<rparr>)
        0)) 0)) 0)) 0)) 0)) 0)
   = Some \<lparr>config_begin = 0x1000, config_end = 0x1010, pos = 0x1000, sync = 0x1000,
            ev_begin = (\<lambda>_. 0), ev_end = (\<lambda>_. 0)(0 := 6), ev_pend = (\<lambda>_ _. 0::nat)\<rparr>"
  by (simp add: pt_enqueue_event_def pt_queue_inc_def ev_write_def Let_def fun_eq_iff)

text \<open>
  In that state the queue of binding 0 holds six events, fewer than the eight slots
  less one, and \<^verbatim>\<open>pt_enqueue_event\<close> returns the null pointer and leaves the decoder
  as it is: the seventh event is refused, so the ring does not leave one slot empty
  only.
\<close>

theorem pt_enqueue_event_one_slot_counterexample:
  "ev_count 8
     \<lparr>config_begin = 0x1000, config_end = 0x1010, pos = 0x1000, sync = 0x1000,
       ev_begin = (\<lambda>_. 0), ev_end = (\<lambda>_. 0)(0 := 6), ev_pend = (\<lambda>_ _. 0::nat)\<rparr> 0 = 6
   \<and> (6::nat) < 8 - 1
   \<and> pt_enqueue_event 3 8
       (Some \<lparr>config_begin = 0x1000, config_end = 0x1010, pos = 0x1000, sync = 0x1000,
          ev_begin = (\<lambda>_. 0), ev_end = (\<lambda>_. 0)(0 := 6), ev_pend = (\<lambda>_ _. 0::nat)\<rparr>) 0
     = (None,
        Some \<lparr>config_begin = 0x1000, config_end = 0x1010, pos = 0x1000, sync = 0x1000,
          ev_begin = (\<lambda>_. 0), ev_end = (\<lambda>_. 0)(0 := 6), ev_pend = (\<lambda>_ _. 0::nat)\<rparr>)"
  by (simp add: ev_count_def pt_enqueue_event_def pt_queue_inc_def Let_def)

text \<open>
  Claim C1, as the code has it. For a decoder, a binding below \<^verbatim>\<open>evb_max\<close> whose
  indices are those of slots, and between 2 and 256 slots to a queue: when the queue
  holds fewer events than the number of slots less two, \<^verbatim>\<open>pt_enqueue_event\<close> returns
  the slot at the tail, zeroed, and moves the tail one slot on, so the queue holds one
  event more, the event the caller stores in the slot being the last one; it returns
  the null pointer exactly when the queue holds the number of slots less two events,
  and then the decoder is unchanged. The ring leaves two slots empty.
\<close>

theorem pt_enqueue_event_two_slots:
  fixes d :: "('e::zero, 'z) pt_decoder_scheme"
  assumes "2 \<le> n" and "n \<le> 256" and "evb < evb_max" and "ev_indices_ok n d evb"
  shows "(ev_count n d evb < n - 2 \<longrightarrow>
            (\<exists>d'. pt_enqueue_event evb_max n (Some d) evb
                     = (Some (evb, unat (ev_end d evb)), Some d')
                 \<and> ev_begin d' = ev_begin d
                 \<and> ev_end d' = (ev_end d)(evb := pt_queue_inc n (ev_end d evb))
                 \<and> unat (ev_end d' evb) = (unat (ev_end d evb) + 1) mod n
                 \<and> ev_count n d' evb = ev_count n d evb + 1
                 \<and> ev_queued n d' evb = ev_queued n d evb @ [0]
                 \<and> (\<forall>v. ev_queued n (ev_write d' (evb, unat (ev_end d evb)) v) evb
                            = ev_queued n d evb @ [v])))
       \<and> (fst (pt_enqueue_event evb_max n (Some d) evb) = None
            \<longleftrightarrow> ev_count n d evb = n - 2)
       \<and> (fst (pt_enqueue_event evb_max n (Some d) evb) = None
            \<longrightarrow> snd (pt_enqueue_event evb_max n (Some d) evb) = Some d)"
proof -
  note ev = pt_enqueue_event_eval [OF assms]
  let ?p = "(evb, unat (ev_end d evb))"
  let ?d0 = "d\<lparr>ev_end := (ev_end d)(evb := pt_queue_inc n (ev_end d evb))\<rparr>"
  from assms have e: "unat (ev_end d evb) < n"
    by (simp add: ev_indices_ok_def)
  have n0: "0 < n" using assms(1) by simp
  have null: "fst (pt_enqueue_event evb_max n (Some d) evb) = None
            \<longleftrightarrow> ev_count n d evb = n - 2"
    by (simp add: ev)
  have same: "fst (pt_enqueue_event evb_max n (Some d) evb) = None
            \<longrightarrow> snd (pt_enqueue_event evb_max n (Some d) evb) = Some d"
    by (simp add: ev)
  have room: "\<exists>d'. pt_enqueue_event evb_max n (Some d) evb = (Some ?p, Some d')
                 \<and> ev_begin d' = ev_begin d
                 \<and> ev_end d' = (ev_end d)(evb := pt_queue_inc n (ev_end d evb))
                 \<and> unat (ev_end d' evb) = (unat (ev_end d evb) + 1) mod n
                 \<and> ev_count n d' evb = ev_count n d evb + 1
                 \<and> ev_queued n d' evb = ev_queued n d evb @ [0]
                 \<and> (\<forall>v. ev_queued n (ev_write d' ?p v) evb = ev_queued n d evb @ [v])"
    if lt: "ev_count n d evb < n - 2"
  proof (intro exI conjI allI)
    from lt have lt1: "ev_count n d evb < n - 1" by simp
    note st = ev_enqueued_state [OF assms(1,2,4) lt1]
    show "pt_enqueue_event evb_max n (Some d) evb = (Some ?p, Some (ev_write ?d0 ?p 0))"
      using lt by (simp add: ev)
    show "ev_begin (ev_write ?d0 ?p 0) = ev_begin d"
      by (simp add: ev_write_def)
    show "ev_end (ev_write ?d0 ?p 0) = (ev_end d)(evb := pt_queue_inc n (ev_end d evb))"
      by (simp add: ev_write_def)
    show "unat (ev_end (ev_write ?d0 ?p 0) evb) = (unat (ev_end d evb) + 1) mod n"
      using unat_pt_queue_inc [OF n0 assms(2) e] by (simp add: ev_write_def)
    show "ev_count n (ev_write ?d0 ?p 0) evb = ev_count n d evb + 1"
      by (rule st(2))
    show "ev_queued n (ev_write ?d0 ?p 0) evb = ev_queued n d evb @ [0]"
      by (rule st(3))
    show "ev_queued n (ev_write (ev_write ?d0 ?p 0) ?p v) evb = ev_queued n d evb @ [v]" for v
      unfolding ev_write_twice by (rule st(3))
  qed
  from room null same show ?thesis by blast
qed

text \<open>An enqueue into a queue of eight slots that holds five events.\<close>

theorem pt_enqueue_event_two_slots_witness:
  "pt_enqueue_event 3 8
       (Some \<lparr>config_begin = 0x1000, config_end = 0x1010, pos = 0x1000, sync = 0x1000,
          ev_begin = (\<lambda>_. 0), ev_end = (\<lambda>_. 5), ev_pend = (\<lambda>_ _. 7::nat)\<rparr>) 2
     = (Some (2, 5),
        Some \<lparr>config_begin = 0x1000, config_end = 0x1010, pos = 0x1000, sync = 0x1000,
          ev_begin = (\<lambda>_. 0), ev_end = (\<lambda>_. 5)(2 := 6),
          ev_pend = (\<lambda>_ _. 7::nat)(2 := (\<lambda>_. 7)(5 := 0))\<rparr>)
   \<and> ev_count 8
       \<lparr>config_begin = 0x1000, config_end = 0x1010, pos = 0x1000, sync = 0x1000,
          ev_begin = (\<lambda>_. 0), ev_end = (\<lambda>_. 5), ev_pend = (\<lambda>_ _. 7::nat)\<rparr> 2 = 5
   \<and> ev_count 8
       \<lparr>config_begin = 0x1000, config_end = 0x1010, pos = 0x1000, sync = 0x1000,
          ev_begin = (\<lambda>_. 0), ev_end = (\<lambda>_. 5)(2 := 6),
          ev_pend = (\<lambda>_ _. 7::nat)(2 := (\<lambda>_. 7)(5 := 0))\<rparr> 2 = 6"
proof -
  let ?d = "\<lparr>config_begin = 0x1000, config_end = 0x1010, pos = 0x1000, sync = 0x1000,
          ev_begin = (\<lambda>_. 0), ev_end = (\<lambda>_. 5), ev_pend = (\<lambda>_ _. 7::nat)\<rparr>"
  have h1: "(2::nat) \<le> 8" and h2: "(8::nat) \<le> 256" and h3: "(2::nat) < 3" by simp_all
  have h4: "ev_indices_ok 8 ?d 2" by (simp add: ev_indices_ok_def)
  have c: "ev_count 8 ?d 2 = 5" by (simp add: ev_count_def)
  have run: "pt_enqueue_event 3 8 (Some ?d) 2
     = (Some (2, 5),
        Some \<lparr>config_begin = 0x1000, config_end = 0x1010, pos = 0x1000, sync = 0x1000,
          ev_begin = (\<lambda>_. 0), ev_end = (\<lambda>_. 5)(2 := 6),
          ev_pend = (\<lambda>_ _. 7::nat)(2 := (\<lambda>_. 7)(5 := 0))\<rparr>)"
    by (simp add: pt_enqueue_event_def pt_queue_inc_def ev_write_def Let_def)
  from pt_enqueue_event_two_slots [OF h1 h2 h3 h4] have
    "ev_count 8 ?d 2 < 8 - 2 \<longrightarrow>
       (\<exists>d'. pt_enqueue_event 3 8 (Some ?d) 2 = (Some (2, unat (ev_end ?d 2)), Some d')
            \<and> ev_count 8 d' 2 = ev_count 8 ?d 2 + 1)"
    by blast
  with c run show ?thesis by simp
qed


section \<open>Reading from a mapped section\<close>

lemma cast_small:
  fixes x :: "64 word"
  assumes "unat x < 65536"
  shows "sint (ucast x :: 32 word) = int (unat x)"
    and "unat (scast (ucast x :: 32 word) :: 64 word) = unat x"
proof -
  have "int (unat x) < 65536" using assms by linarith
  then have ux: "uint x < 65536" by simp
  have ge: "0 \<le> uint x" by (rule uint_nonnegative)
  have "- (2 ^ 31) \<le> (0::int)" by simp
  then have lo: "- (2 ^ 31) \<le> uint x" using ge by (rule order_trans)
  have "(65536::int) \<le> 2 ^ 31" by simp
  with ux have hi: "uint x < 2 ^ 31" by (rule less_le_trans)
  have "sint (ucast x :: 32 word) = signed_take_bit 31 (uint x)"
    by (simp add: signed_ucast_eq)
  also have "\<dots> = uint x"
    using lo hi by (rule signed_take_bit_int_eq_self)
  finally have s: "sint (ucast x :: 32 word) = uint x" .
  then show "sint (ucast x :: 32 word) = int (unat x)" by simp
  have "(scast (ucast x :: 32 word) :: 64 word) = word_of_int (sint (ucast x :: 32 word))"
    by (rule scast_eq)
  also have "\<dots> = x"
    unfolding s by simp
  finally show "unat (scast (ucast x :: 32 word) :: 64 word) = unat x"
    by simp
qed

lemma ucast_size_bound:
  fixes sz :: "16 word"
  shows "unat (ucast sz :: 64 word) = unat sz" and "unat sz < 65536"
proof -
  have b: "unat sz < 2 ^ 16"
    using unsigned_less [of sz, where 'a = nat] by simp
  then show "unat sz < 65536" by simp
  have "unat sz < 2 ^ 64"
    using b by (rule less_le_trans) simp
  then show "unat (ucast sz :: 64 word) = unat sz"
    by (simp add: unsigned_ucast_eq take_bit_nat_eq_self)
qed

lemma read_outside:
  fixes mb me offs :: "64 word"
  assumes "mb \<le> me" and "me - mb \<le> offs"
  shows "me \<le> mb + offs \<or> mb + offs < mb"
proof -
  define M :: nat where "M = 2 ^ 64"
  have A: "unat mb < M" and O: "unat offs < M"
    using unsigned_less [of mb, where 'a = nat] unsigned_less [of offs, where 'a = nat]
    by (simp_all add: M_def)
  have AB: "unat mb \<le> unat me"
    using assms(1) by (simp add: word_le_nat_alt)
  have len: "unat (me - mb) = unat me - unat mb"
    using assms(1) by (rule unat_sub)
  have LO: "unat me - unat mb \<le> unat offs"
    using assms(2) by (simp add: word_le_nat_alt len)
  have S: "unat (mb + offs) = (unat mb + unat offs) mod M"
    by (simp add: unat_word_ariths M_def)
  have "unat (mb + offs) = (if unat mb + unat offs < M then unat mb + unat offs
                            else unat mb + unat offs - M)"
    unfolding S using A O by (intro mod_once) simp
  then have "unat me \<le> unat (mb + offs) \<or> unat (mb + offs) < unat mb"
    using A O AB LO by (auto split: if_splits)
  then show ?thesis
    by (simp add: word_le_nat_alt word_less_nat_alt)
qed

lemma read_inside:
  fixes mb me offs z :: "64 word"
  assumes "mb \<le> me" and "me \<le> 0xFFFFFFFFFFFF0000" and "offs < me - mb" and "unat z < 65536"
  shows "\<not> mb + offs + z < mb + offs" and "\<not> me \<le> mb + offs" and "\<not> mb + offs < mb"
    and "unat ((if me < mb + offs + z then me else mb + offs + z) - (mb + offs))
         = min (unat z) (unat (me - mb - offs))"
proof -
  define M :: nat where "M = 2 ^ 64"
  have AB: "unat mb \<le> unat me"
    using assms(1) by (simp add: word_le_nat_alt)
  have "unat me \<le> unat (0xFFFFFFFFFFFF0000 :: 64 word)"
    using assms(2) by (simp only: word_le_nat_alt)
  then have top: "unat me + 65536 \<le> M"
    by (simp add: M_def)
  have len: "unat (me - mb) = unat me - unat mb"
    using assms(1) by (rule unat_sub)
  have OL: "unat offs < unat me - unat mb"
    using assms(3) by (simp add: word_less_nat_alt len)
  have "unat mb + unat offs < 2 ^ LENGTH(64)"
    using OL top by (simp add: M_def)
  then have b0: "unat (mb + offs) = unat mb + unat offs"
    by (simp only: unat_add_lem)
  have "unat (mb + offs) + unat z < 2 ^ LENGTH(64)"
    using OL top assms(4) by (simp add: M_def b0)
  then have "unat (mb + offs + z) = unat (mb + offs) + unat z"
    by (simp only: unat_add_lem)
  then have e0: "unat (mb + offs + z) = unat mb + unat offs + unat z"
    by (simp only: b0)
  show c1: "\<not> mb + offs + z < mb + offs"
    by (simp add: word_less_nat_alt b0 e0)
  show c2: "\<not> me \<le> mb + offs"
    using OL by (simp add: word_le_nat_alt b0)
  show c3: "\<not> mb + offs < mb"
    by (simp add: word_less_nat_alt b0)
  have ol: "offs \<le> me - mb"
    using assms(3) by simp
  have rest: "unat (me - mb - offs) = unat me - unat mb - unat offs"
    using unat_sub [OF ol] by (simp only: len)
  have b0me: "mb + offs \<le> me"
    using c2 by simp
  have b0e0: "mb + offs \<le> mb + offs + z"
    using c1 by simp
  show "unat ((if me < mb + offs + z then me else mb + offs + z) - (mb + offs))
         = min (unat z) (unat (me - mb - offs))"
  proof (cases "me < mb + offs + z")
    case True
    then have "unat me < unat mb + unat offs + unat z"
      by (simp add: word_less_nat_alt e0)
    then show ?thesis
      using True OL by (simp add: unat_sub [OF b0me] rest b0)
  next
    case False
    then have "unat mb + unat offs + unat z \<le> unat me"
      by (simp add: word_less_nat_alt e0)
    then show ?thesis
      using False OL by (simp add: unat_sub [OF b0e0] rest b0 e0)
  qed
qed

text \<open>
  Claim C5. For a section with a mapping from \<^verbatim>\<open>begin\<close> to \<^verbatim>\<open>end\<close> that does not reach
  into the last 64 KiB of the address space, a non-null buffer, and every size and offset:
  when the offset lies within the mapped range, \<^verbatim>\<open>pt_sec_windows_read\<close> copies the
  bytes of the section from the offset on, as many as the size asks for but not more
  than the mapped range has left, and returns their number; when the offset lies at or
  past the end of the mapped range, it returns \<^verbatim>\<open>-pte_nomap\<close> and copies nothing.
\<close>

theorem pt_sec_windows_read_up_to_boundary:
  fixes s :: "'z pt_section_scheme"
  assumes "mapping s = Some m" and "buffer \<noteq> 0"
    and "begin m \<le> end m" and "end m \<le> 0xFFFFFFFFFFFF0000"
  shows "(offs < end m - begin m \<longrightarrow>
            pt_sec_windows_read mem (Some s) buffer sz offs =
              (int (min (unat sz) (unat (end m - begin m - offs))),
               map (\<lambda>i. mem (begin m + offs + of_nat i))
                 [0 ..< min (unat sz) (unat (end m - begin m - offs))]))
       \<and> (end m - begin m \<le> offs \<longrightarrow>
            pt_sec_windows_read mem (Some s) buffer sz offs = (- pte_nomap, []))"
proof (intro conjI impI)
  assume inside: "offs < end m - begin m"
  let ?z = "ucast sz :: 64 word"
  have z: "unat ?z < 65536"
    using ucast_size_bound [of sz] by simp
  note ri = read_inside [OF assms(3,4) inside z]
  let ?x = "(if end m < begin m + offs + ?z then end m else begin m + offs + ?z) - (begin m + offs)"
  have k: "unat ?x = min (unat sz) (unat (end m - begin m - offs))"
    using ri(4) by (simp only: ucast_size_bound(1))
  have small: "unat ?x < 65536"
    unfolding k using ucast_size_bound(2) [of sz] by simp
  note cs = cast_small [OF small]
  have "pt_sec_windows_read mem (Some s) buffer sz offs =
          (sint (ucast ?x :: 32 word),
           map (\<lambda>i. mem (begin m + offs + of_nat i))
             [0 ..< unat (scast (ucast ?x :: 32 word) :: 64 word)])"
    unfolding pt_sec_windows_read_def
    using assms(1,2) ri(1,2,3) by (simp add: Let_def)
  then show "pt_sec_windows_read mem (Some s) buffer sz offs =
              (int (min (unat sz) (unat (end m - begin m - offs))),
               map (\<lambda>i. mem (begin m + offs + of_nat i))
                 [0 ..< min (unat sz) (unat (end m - begin m - offs))])"
    by (simp only: cs k)
next
  assume outside: "end m - begin m \<le> offs"
  from read_outside [OF assms(3) outside]
  show "pt_sec_windows_read mem (Some s) buffer sz offs = (- pte_nomap, [])"
    unfolding pt_sec_windows_read_def
    using assms(1,2) by (auto simp: Let_def)
qed

text \<open>
  A read of 8 bytes at offset 12 of a section of 16 bytes gives the last 4 bytes; a
  read at offset 16 gives \<^verbatim>\<open>-pte_nomap\<close>.
\<close>

theorem pt_sec_windows_read_up_to_boundary_witness:
  "pt_sec_windows_read (\<lambda>a. ucast a)
     (Some \<lparr>filename = Some ''a.bin'', offset = 0, size_sec = 16, status = None,
        mapping = Some \<lparr>fd = 3, mh = 1, base = 0x10000, begin = 0x10000, end = 0x10010\<rparr>,
        unmap = Some Pt_sec_windows_unmap, read = Some Pt_sec_windows_read, mcount = 1\<rparr>)
     0x2000 8 12
   = (4, [0x0C, 0x0D, 0x0E, 0x0F])
   \<and> pt_sec_windows_read (\<lambda>a. ucast a)
     (Some \<lparr>filename = Some ''a.bin'', offset = 0, size_sec = 16, status = None,
        mapping = Some \<lparr>fd = 3, mh = 1, base = 0x10000, begin = 0x10000, end = 0x10010\<rparr>,
        unmap = Some Pt_sec_windows_unmap, read = Some Pt_sec_windows_read, mcount = 1\<rparr>)
     0x2000 8 16
   = (- pte_nomap, [])"
proof -
  let ?m = "\<lparr>fd = 3, mh = 1, base = 0x10000, begin = 0x10000, end = 0x10010\<rparr>"
  let ?s = "\<lparr>filename = Some ''a.bin'', offset = 0, size_sec = 16, status = None,
        mapping = Some ?m,
        unmap = Some Pt_sec_windows_unmap, read = Some Pt_sec_windows_read, mcount = 1\<rparr>"
  have h1: "mapping ?s = Some ?m" by simp
  have h2: "(0x2000 :: 64 word) \<noteq> 0" by simp
  have h3: "begin ?m \<le> end ?m" by simp
  have h4: "end ?m \<le> 0xFFFFFFFFFFFF0000" by simp
  have in12: "(12 :: 64 word) < end ?m - begin ?m" by simp
  have out16: "end ?m - begin ?m \<le> (16 :: 64 word)" by simp
  have n: "min (unat (8 :: 16 word)) (unat (end ?m - begin ?m - (12 :: 64 word))) = 4" by simp
  have u: "[0 ..< 4] = [0, 1, 2, 3::nat]" by (simp add: upt_rec)
  from pt_sec_windows_read_up_to_boundary [OF h1 h2 h3 h4, of 12 "\<lambda>a. ucast a" 8] in12
  have a: "pt_sec_windows_read (\<lambda>a. ucast a) (Some ?s) 0x2000 8 12 = (4, [0x0C, 0x0D, 0x0E, 0x0F])"
    unfolding n u by simp
  from pt_sec_windows_read_up_to_boundary [OF h1 h2 h3 h4, of 16 "\<lambda>a. ucast a" 8] out16
  have b: "pt_sec_windows_read (\<lambda>a. ucast a) (Some ?s) 0x2000 8 16 = (- pte_nomap, [])"
    by simp
  from a b show ?thesis by simp
qed

section \<open>Mapping a section\<close>

lemma pt_section_mk_status_records:
  assumes "pt_section_mk_status w0 pstatus psize fname = (0, Some (st, sz), calls)"
  shows "stat st = fstat_stat w0"
  using assms
  by (auto simp: pt_section_mk_status_def pt_sec_windows_fstat_def Let_def pte_internal_def
      pte_bad_image_def pte_nomem_def split: if_splits prod.splits option.splits)

text \<open>
  Claim C6. The status of a section was made by \<^verbatim>\<open>pt_section_mk_status\<close>, the section
  is not mapped, and \<^verbatim>\<open>pt_section_map\<close> takes the lock, opens the file and gets a file
  descriptor for it. If the size or the modification time that \<^verbatim>\<open>_fstat\<close> then reports
  differs from the recorded one, \<^verbatim>\<open>pt_section_map\<close> returns \<^verbatim>\<open>-pte_bad_image\<close> and the
  section is as it was: its map count is 0 and it has no mapping.
\<close>

theorem pt_section_map_detects_changed_file:
  fixes s :: "'z pt_section_scheme"
  assumes "pt_section_mk_status w0 True True (filename s) = (0, Some (st, sz), calls)"
    and "status s = Some st"
    and "mcount s = 0" and "mapping s = None"
    and "0 \<le> lock_result w"
    and "open_section_file w = (Some fh, opened)"
    and "open_osfhandle_result w \<noteq> - 1"
    and "st_size (fstat_stat w) \<noteq> st_size (fstat_stat w0)
         \<or> st_mtime (fstat_stat w) \<noteq> st_mtime (fstat_stat w0)"
  shows "pt_section_map w pt_sec_file_map (Some s) =
           (- pte_bad_image, Some s,
            OS_pt_section_lock # opened @ [OS_open_osfhandle, OS_fstat, OS_close])
         \<and> mcount s = 0 \<and> mapping s = None"
proof -
  have rec: "stat st = fstat_stat w0"
    using assms(1) by (rule pt_section_mk_status_records)
  have fn: "filename s \<noteq> None"
    using assms(1)
    by (auto simp: pt_section_mk_status_def pt_sec_windows_fstat_def pte_internal_def
        split: if_splits)
  have chk: "check_file_status w (Some s) (open_osfhandle_result w) = (- pte_bad_image, [OS_fstat])"
    using assms(2,8) by (auto simp: check_file_status_def Let_def rec)
  have neg: "- pte_bad_image < 0"
    by (simp add: pte_bad_image_def)
  have lock: "\<not> lock_result w < 0"
    using assms(5) by simp
  show ?thesis
    unfolding pt_section_map_def
    using fn neg lock assms(3,4,6,7) by (simp add: Let_def chk)
qed

text \<open>A file whose modification time went from 5000 to 6000.\<close>

theorem pt_section_map_detects_changed_file_witness:
  "pt_section_map
     \<lparr>lock_result = 0, unlock_result = 0, open_result = 3,
        create_file_share_read = Some 7, create_file_share_write = None,
        open_osfhandle_result = 4, fstat_errcode = 0,
        fstat_stat = \<lparr>st_size = 100, st_mtime = 6000\<rparr>,
        allocation_granularity = 0x10000, create_file_mapping_result = Some 9,
        map_view_of_file_result = 0x20000, malloc_succeeds = True, fdopen_succeeds = True\<rparr>
     (\<lambda>s. (0, s))
     (Some \<lparr>filename = Some ''a.bin'', offset = 0, size_sec = 100,
        status = Some \<lparr>stat = \<lparr>st_size = 100, st_mtime = 5000\<rparr>\<rparr>,
        mapping = None, unmap = None, read = None, mcount = 0\<rparr>)
   = (- pte_bad_image,
      Some \<lparr>filename = Some ''a.bin'', offset = 0, size_sec = 100,
        status = Some \<lparr>stat = \<lparr>st_size = 100, st_mtime = 5000\<rparr>\<rparr>,
        mapping = None, unmap = None, read = None, mcount = 0\<rparr>,
      [OS_pt_section_lock, OS_CreateFile_share_read, OS_open_osfhandle, OS_fstat, OS_close])"
proof -
  let ?wa = "\<lparr>lock_result = 0, unlock_result = 0, open_result = 3,
        create_file_share_read = Some 7, create_file_share_write = None,
        open_osfhandle_result = 4, fstat_errcode = 0,
        fstat_stat = \<lparr>st_size = 100, st_mtime = 5000\<rparr>,
        allocation_granularity = 0x10000, create_file_mapping_result = Some 9,
        map_view_of_file_result = 0x20000, malloc_succeeds = True, fdopen_succeeds = True\<rparr>"
  let ?wb = "\<lparr>lock_result = 0, unlock_result = 0, open_result = 3,
        create_file_share_read = Some 7, create_file_share_write = None,
        open_osfhandle_result = 4, fstat_errcode = 0,
        fstat_stat = \<lparr>st_size = 100, st_mtime = 6000\<rparr>,
        allocation_granularity = 0x10000, create_file_mapping_result = Some 9,
        map_view_of_file_result = 0x20000, malloc_succeeds = True, fdopen_succeeds = True\<rparr>"
  let ?st = "\<lparr>stat = \<lparr>st_size = 100, st_mtime = 5000\<rparr>\<rparr>"
  let ?s = "\<lparr>filename = Some ''a.bin'', offset = 0, size_sec = 100,
        status = Some ?st, mapping = None, unmap = None, read = None, mcount = 0\<rparr>"
  have h1: "pt_section_mk_status ?wa True True (filename ?s)
            = (0, Some (?st, 100), [OS_open, OS_fstat, OS_close, OS_malloc])"
    by (simp add: pt_section_mk_status_def pt_sec_windows_fstat_def Let_def)
  have h2: "status ?s = Some ?st" by simp
  have h3: "mcount ?s = 0" and h4: "mapping ?s = None" by simp_all
  have h5: "0 \<le> lock_result ?wb" by simp
  have h6: "open_section_file ?wb = (Some 7, [OS_CreateFile_share_read])"
    by (simp add: open_section_file_def)
  have h7: "open_osfhandle_result ?wb \<noteq> - 1" by simp
  have h8: "st_size (fstat_stat ?wb) \<noteq> st_size (fstat_stat ?wa)
         \<or> st_mtime (fstat_stat ?wb) \<noteq> st_mtime (fstat_stat ?wa)" by simp
  from pt_section_map_detects_changed_file [OF h1 h2 h3 h4 h5 h6 h7 h8, of "\<lambda>s. (0, s)"]
  show ?thesis by simp
qed

lemma mcount_increment:
  fixes c :: "16 word"
  assumes "1 \<le> c" and "c < 0xFFFF"
  shows "1 < c + 1"
proof -
  have lo: "1 \<le> unat c"
    using assms(1) by (simp add: word_le_nat_alt)
  have hi: "unat c < 65535"
    using assms(2) by (simp add: word_less_nat_alt)
  have "unat c + unat (1 :: 16 word) < 2 ^ LENGTH(16)"
    using hi by simp
  then have "unat (c + 1) = unat c + unat (1 :: 16 word)"
    by (simp only: unat_add_lem)
  then show ?thesis
    using lo by (simp add: word_less_nat_alt)
qed

lemma map_count_wraps: "(0xFFFF :: 16 word) + 1 = 0"
proof -
  have "unat ((0xFFFF :: 16 word) + 1)
        = (unat (0xFFFF :: 16 word) + unat (1 :: 16 word)) mod 2 ^ LENGTH(16)"
    by (rule unat_word_ariths(1))
  also have "\<dots> = 0" by simp
  finally show ?thesis by (simp only: unat_eq_0)
qed

lemma map_count_wrapped: "(0x10000 :: 16 word) = 0"
  using map_count_wraps by simp

text \<open>
  A mapped section whose map count is 65535: the incremented count wraps to 0, and
  \<^verbatim>\<open>pt_section_map\<close> returns \<^verbatim>\<open>-pte_internal\<close> and does not change the map count.
\<close>

theorem pt_section_map_map_count_overflow_counterexample:
  "(1 :: 16 word) \<le> 0xFFFF
   \<and> pt_section_map
     \<lparr>lock_result = 0, unlock_result = 0, open_result = 3,
        create_file_share_read = Some 7, create_file_share_write = None,
        open_osfhandle_result = 4, fstat_errcode = 0,
        fstat_stat = \<lparr>st_size = 100, st_mtime = 5000\<rparr>,
        allocation_granularity = 0x10000, create_file_mapping_result = Some 9,
        map_view_of_file_result = 0x20000, malloc_succeeds = True, fdopen_succeeds = True\<rparr>
     (\<lambda>s. (0, s))
     (Some \<lparr>filename = Some ''a.bin'', offset = 0, size_sec = 100,
        status = Some \<lparr>stat = \<lparr>st_size = 100, st_mtime = 5000\<rparr>\<rparr>,
        mapping = Some \<lparr>fd = 4, mh = 9, base = 0x20000, begin = 0x20000, end = 0x20064\<rparr>,
        unmap = Some Pt_sec_windows_unmap, read = Some Pt_sec_windows_read,
        mcount = 0xFFFF\<rparr>)
   = (- pte_internal,
      Some \<lparr>filename = Some ''a.bin'', offset = 0, size_sec = 100,
        status = Some \<lparr>stat = \<lparr>st_size = 100, st_mtime = 5000\<rparr>\<rparr>,
        mapping = Some \<lparr>fd = 4, mh = 9, base = 0x20000, begin = 0x20000, end = 0x20064\<rparr>,
        unmap = Some Pt_sec_windows_unmap, read = Some Pt_sec_windows_read,
        mcount = 0xFFFF\<rparr>,
      [OS_pt_section_lock, OS_pt_section_unlock])"
  by (simp add: pt_section_map_def Let_def map_count_wrapped)

text \<open>
  Claim C7, as the code has it. For a section whose map count is between 1 and 65534,
  when \<^verbatim>\<open>pt_section_lock\<close> succeeds, \<^verbatim>\<open>pt_section_map\<close> increments the map count and
  changes nothing else of the section (mapping, read and unmap function and file
  status are as they were), calls nothing but \<^verbatim>\<open>pt_section_lock\<close> and
  \<^verbatim>\<open>pt_section_unlock\<close>, and returns what \<^verbatim>\<open>pt_section_unlock\<close> returns, which is 0
  when unlocking succeeds.
\<close>

theorem pt_section_map_already_mapped:
  fixes s :: "'z pt_section_scheme"
  assumes "1 \<le> mcount s" and "mcount s < 0xFFFF" and "0 \<le> lock_result w"
  shows "pt_section_map w pt_sec_file_map (Some s) =
           (unlock_result w, Some (s\<lparr>mcount := mcount s + 1\<rparr>),
            [OS_pt_section_lock, OS_pt_section_unlock])"
proof -
  have "1 < mcount s + 1"
    using assms(1,2) by (rule mcount_increment)
  moreover have "\<not> lock_result w < 0"
    using assms(3) by simp
  ultimately show ?thesis
    unfolding pt_section_map_def by (simp add: Let_def)
qed

text \<open>A second mapping of a mapped section, in a world where no file can be opened.\<close>

theorem pt_section_map_already_mapped_witness:
  "pt_section_map
     \<lparr>lock_result = 0, unlock_result = 0, open_result = 3,
        create_file_share_read = None, create_file_share_write = None,
        open_osfhandle_result = - 1, fstat_errcode = 1,
        fstat_stat = \<lparr>st_size = 7, st_mtime = 9\<rparr>,
        allocation_granularity = 0x10000, create_file_mapping_result = None,
        map_view_of_file_result = 0, malloc_succeeds = False, fdopen_succeeds = False\<rparr>
     (\<lambda>s. (- pte_bad_image, s))
     (Some \<lparr>filename = Some ''a.bin'', offset = 0, size_sec = 100,
        status = Some \<lparr>stat = \<lparr>st_size = 100, st_mtime = 5000\<rparr>\<rparr>,
        mapping = Some \<lparr>fd = 4, mh = 9, base = 0x20000, begin = 0x20000, end = 0x20064\<rparr>,
        unmap = Some Pt_sec_windows_unmap, read = Some Pt_sec_windows_read,
        mcount = 1\<rparr>)
   = (0,
      Some \<lparr>filename = Some ''a.bin'', offset = 0, size_sec = 100,
        status = Some \<lparr>stat = \<lparr>st_size = 100, st_mtime = 5000\<rparr>\<rparr>,
        mapping = Some \<lparr>fd = 4, mh = 9, base = 0x20000, begin = 0x20000, end = 0x20064\<rparr>,
        unmap = Some Pt_sec_windows_unmap, read = Some Pt_sec_windows_read,
        mcount = 2\<rparr>,
      [OS_pt_section_lock, OS_pt_section_unlock])"
proof -
  let ?wb = "\<lparr>lock_result = 0, unlock_result = 0, open_result = 3,
        create_file_share_read = None, create_file_share_write = None,
        open_osfhandle_result = - 1, fstat_errcode = 1,
        fstat_stat = \<lparr>st_size = 7, st_mtime = 9\<rparr>,
        allocation_granularity = 0x10000, create_file_mapping_result = None,
        map_view_of_file_result = 0, malloc_succeeds = False, fdopen_succeeds = False\<rparr>"
  let ?s = "\<lparr>filename = Some ''a.bin'', offset = 0, size_sec = 100,
        status = Some \<lparr>stat = \<lparr>st_size = 100, st_mtime = 5000\<rparr>\<rparr>,
        mapping = Some \<lparr>fd = 4, mh = 9, base = 0x20000, begin = 0x20000, end = 0x20064\<rparr>,
        unmap = Some Pt_sec_windows_unmap, read = Some Pt_sec_windows_read,
        mcount = 1\<rparr>"
  have h1: "1 \<le> mcount ?s" and h2: "mcount ?s < 0xFFFF" and h3: "0 \<le> lock_result ?wb"
    by simp_all
  from pt_section_map_already_mapped [OF h1 h2 h3, of "\<lambda>s. (- pte_bad_image, s)"]
  show ?thesis by simp
qed

end
